theory Spec2Isabelle
  imports Main "HOL-Library.Word"
begin

unbundle bit_operations_syntax

section \<open>Go strings\<close>

text \<open>
  A Go string is a sequence of bytes; it is modelled as \<^typ>\<open>string\<close>, a list of 8-bit
  characters.  The two quote characters of the image patterns are named here because
  they cannot be written inside a literal.
\<close>

definition dq :: char where
  "dq = CHR 0x22"

definition sq :: char where
  "sq = CHR 0x27"

text \<open>\<^verbatim>\<open>strings.HasPrefix(s, p)\<close>\<close>

definition hasPrefix :: "string \<Rightarrow> string \<Rightarrow> bool" where
  "hasPrefix s p = (take (length p) s = p)"

text \<open>\<^verbatim>\<open>strings.HasSuffix(s, p)\<close>\<close>

definition hasSuffix :: "string \<Rightarrow> string \<Rightarrow> bool" where
  "hasSuffix s p = (length p \<le> length s \<and> drop (length s - length p) s = p)"

text \<open>
  \<^verbatim>\<open>strings.TrimLeft(s, cutset)\<close> and \<^verbatim>\<open>strings.TrimRight(s, cutset)\<close> for a cutset of
  ASCII bytes: the loop drops bytes of the cutset from the front (from the back) until
  one is not in it.
\<close>

fun trimLeft :: "string \<Rightarrow> string \<Rightarrow> string" where
  "trimLeft [] cutset = []"
| "trimLeft (c # cs) cutset = (if c \<in> set cutset then trimLeft cs cutset else c # cs)"

definition trimRight :: "string \<Rightarrow> string \<Rightarrow> string" where
  "trimRight s cutset = rev (trimLeft (rev s) cutset)"

text \<open>\<^verbatim>\<open>strings.TrimSuffix(s, suffix)\<close>\<close>

definition trimSuffix :: "string \<Rightarrow> string \<Rightarrow> string" where
  "trimSuffix s suffix = (if hasSuffix s suffix then take (length s - length suffix) s else s)"

text \<open>
  \<^verbatim>\<open>strings.Replace(s, old, new, 1)\<close>: the first occurrence of \<open>old\<close> in \<open>s\<close>, scanning
  from the left, is replaced by \<open>new\<close>; without an occurrence \<open>s\<close> is returned.
\<close>

fun replaceFirst :: "string \<Rightarrow> string \<Rightarrow> string \<Rightarrow> string" where
  "replaceFirst [] old new = (if old = [] then new else [])"
| "replaceFirst (c # cs) old new =
     (if hasPrefix (c # cs) old then new @ drop (length old) (c # cs)
      else c # replaceFirst cs old new)"

text \<open>
  \<^verbatim>\<open>strings.Split(s, sep)\<close> for a one-byte separator: \<open>n\<close> separators give \<open>n + 1\<close>
  parts, and the empty string gives the one empty part.
\<close>

fun splitOn :: "char \<Rightarrow> string \<Rightarrow> string list" where
  "splitOn sep [] = [[]]"
| "splitOn sep (c # cs) =
     (case splitOn sep cs of
        [] \<Rightarrow> (if c = sep then [[], []] else [[c]])
      | p # ps \<Rightarrow> (if c = sep then [] # p # ps else (c # p) # ps))"

text \<open>\<^verbatim>\<open>strings.Join(parts, sep)\<close>\<close>

fun joinWith :: "string \<Rightarrow> string list \<Rightarrow> string" where
  "joinWith sep [] = []"
| "joinWith sep [p] = p"
| "joinWith sep (p # q # ps) = p @ sep @ joinWith sep (q # ps)"

section \<open>The regular expressions of the link extractor\<close>

text \<open>
  Go's \<^verbatim>\<open>regexp\<close> package returns the leftmost match and, among the matches that begin
  there, the one a backtracking matcher finds first.  The two patterns of the program are
  sequences of single character classes and of greedy repetitions of a character class,
  so a pattern is a list of items and the matcher is the backtracking search over the
  repetition counts, longest first.  The result lists the text each item consumed.

  The patterns name ASCII bytes only, as literals or in negated classes, so matching
  bytes gives the matches Go finds on the UTF-8 runes of the text.
\<close>

datatype cls = In string | NotIn string

fun inCls :: "cls \<Rightarrow> char \<Rightarrow> bool" where
  "inCls (In cs) c = (c \<in> set cs)"
| "inCls (NotIn cs) c = (c \<notin> set cs)"

datatype item = One cls | Many nat cls

fun firstSome :: "('a \<Rightarrow> 'b option) \<Rightarrow> 'a list \<Rightarrow> 'b option" where
  "firstSome f [] = None"
| "firstSome f (x # xs) = (case f x of Some y \<Rightarrow> Some y | None \<Rightarrow> firstSome f xs)"

fun matchItems :: "item list \<Rightarrow> string \<Rightarrow> string list option" where
  "matchItems [] s = Some []"
| "matchItems (One c # its) s =
     (case s of
        [] \<Rightarrow> None
      | x # xs \<Rightarrow> if inCls c x then map_option (Cons [x]) (matchItems its xs) else None)"
| "matchItems (Many mn c # its) s =
     (let k = length (takeWhile (inCls c) s)
      in firstSome (\<lambda>n. map_option (Cons (take n s)) (matchItems its (drop n s)))
           (rev [mn ..< Suc k]))"

text \<open>What an item can consume: \<open>fits it p\<close> when the text \<open>p\<close> is a match of item \<open>it\<close>.\<close>

fun fits :: "item \<Rightarrow> string \<Rightarrow> bool" where
  "fits (One c) p = (case p of [x] \<Rightarrow> inCls c x | _ \<Rightarrow> False)"
| "fits (Many mn c) p = (mn \<le> length p \<and> list_all (inCls c) p)"

definition lit :: "string \<Rightarrow> item list" where
  "lit s = map (\<lambda>c. One (In [c])) s"

definition quotes :: string where
  "quotes = [dq, sq]"

text \<open>The pattern \<^verbatim>\<open><img[^>]+src=["']([^"']+)["'][^>]*>\<close>; its group is item 10.\<close>

definition tagRe :: "item list" where
  "tagRe = lit ''<img'' @ [Many 1 (NotIn ''>'')] @ lit ''src='' @
     [One (In quotes), Many 1 (NotIn quotes), One (In quotes),
      Many 0 (NotIn ''>''), One (In ''>'')]"

definition tagGroup :: nat where
  "tagGroup = 10"

text \<open>The pattern \<^verbatim>\<open>src=["']([^"']+)["']\<close>; its group is item 5.\<close>

definition srcRe :: "item list" where
  "srcRe = lit ''src='' @ [One (In quotes), Many 1 (NotIn quotes), One (In quotes)]"

definition srcGroup :: nat where
  "srcGroup = 5"

text \<open>
  \<^verbatim>\<open>FindStringSubmatch\<close>: the leftmost match, tried at every offset from the left.
\<close>

fun findFirst :: "item list \<Rightarrow> string \<Rightarrow> string list option" where
  "findFirst its [] = matchItems its []"
| "findFirst its (c # cs) =
     (case matchItems its (c # cs) of
        Some ps \<Rightarrow> Some ps
      | None \<Rightarrow> findFirst its cs)"

text \<open>
  \<^verbatim>\<open>FindAllStringSubmatch(s, -1)\<close> and \<^verbatim>\<open>ReplaceAllStringFunc\<close> walk the text from the
  left: a match is taken and the walk resumes behind it, a byte where no match begins is
  passed over.  Both patterns consume at least the bytes of \<^verbatim>\<open>src=\<close>, so Go's rule for
  empty matches never applies; the walk passes over a byte there.
\<close>

datatype seg = Lit char | Match "string list"

function scan :: "item list \<Rightarrow> string \<Rightarrow> seg list" where
  "scan its [] = []"
| "scan its (c # cs) =
     (case matchItems its (c # cs) of
        Some ps \<Rightarrow>
          if concat ps = [] then Lit c # scan its cs
          else Match ps # scan its (drop (length (concat ps)) (c # cs))
      | None \<Rightarrow> Lit c # scan its cs)"
  by pat_completeness auto
termination
  by (relation "measure (\<lambda>(its, s). length s)") auto

section \<open>Link extractor and rewriter\<close>

text \<open>\<^verbatim>\<open>extractImageLinks\<close>: group 1 of every match of the tag pattern, in order.\<close>

fun segLinks :: "seg \<Rightarrow> string list" where
  "segLinks (Lit c) = []"
| "segLinks (Match ps) = [ps ! tagGroup]"

definition extractImageLinks :: "string \<Rightarrow> string list" where
  "extractImageLinks htmlContent = concat (map segLinks (scan tagRe htmlContent))"

text \<open>
  The function \<^verbatim>\<open>replaceImageLinks\<close> hands to \<^verbatim>\<open>ReplaceAllStringFunc\<close>: the first match of
  the src pattern inside the tag gives \<open>originalLink\<close>; when the map has it, the first
  occurrence of that text in the tag is replaced by the mapped path.
\<close>

definition rewriteTag :: "(string \<rightharpoonup> string) \<Rightarrow> string \<Rightarrow> string" where
  "rewriteTag imagePathMap imgTag =
     (case findFirst srcRe imgTag of
        Some srcMatch \<Rightarrow>
          (let originalLink = srcMatch ! srcGroup
           in case imagePathMap originalLink of
                Some newPath \<Rightarrow> replaceFirst imgTag originalLink newPath
              | None \<Rightarrow> imgTag)
      | None \<Rightarrow> imgTag)"

fun segRewrite :: "(string \<rightharpoonup> string) \<Rightarrow> seg \<Rightarrow> string" where
  "segRewrite imagePathMap (Lit c) = [c]"
| "segRewrite imagePathMap (Match ps) = rewriteTag imagePathMap (concat ps)"

definition replaceImageLinks :: "string \<Rightarrow> (string \<rightharpoonup> string) \<Rightarrow> string" where
  "replaceImageLinks htmlContent imagePathMap =
     concat (map (segRewrite imagePathMap) (scan tagRe htmlContent))"

section \<open>Library functions the program calls\<close>

subsection \<open>\<^verbatim>\<open>path/filepath\<close> on a Unix build\<close>

text \<open>
  The separator is the slash and there are no volume names.  \<^verbatim>\<open>filepath.Base\<close> strips
  trailing slashes and returns what follows the last slash; the empty path gives a dot
  and a path of slashes gives a slash.
\<close>

definition lastElement :: "string \<Rightarrow> string" where
  "lastElement path = rev (takeWhile (\<lambda>c. c \<noteq> CHR ''/'') (rev path))"

definition pathBase :: "string \<Rightarrow> string" where
  "pathBase path =
     (if path = [] then ''.''
      else let e = lastElement (trimRight path ''/'') in if e = [] then ''/'' else e)"

text \<open>
  \<^verbatim>\<open>filepath.Ext\<close> walks from the last byte to the left until a slash; at the first dot
  it returns the path from that dot on.  The second argument is the part already walked.
\<close>

fun extWalk :: "string \<Rightarrow> string \<Rightarrow> string" where
  "extWalk [] walked = []"
| "extWalk (c # cs) walked =
     (if c = CHR ''/'' then []
      else if c = CHR ''.'' then c # walked
      else extWalk cs (c # walked))"

definition pathExt :: "string \<Rightarrow> string" where
  "pathExt path = extWalk (rev path) []"

subsection \<open>UTF-8\<close>

text \<open>
  A \<^verbatim>\<open>range\<close> loop over a string and \<^verbatim>\<open>strings.Map\<close> decode the bytes into runes as
  \<^verbatim>\<open>utf8.DecodeRuneInString\<close> does: a byte that starts no well-formed sequence is the rune
  U+FFFD of width 1.  \<open>decodeRune b0 bs\<close> returns the rune that starts with byte \<open>b0\<close>
  and how many of the following bytes \<open>bs\<close> belong to it.
\<close>

definition runeError :: nat where
  "runeError = 0xFFFD"

definition isCont :: "nat \<Rightarrow> bool" where
  "isCont b = (0x80 \<le> b \<and> b \<le> 0xBF)"

definition decodeRune :: "nat \<Rightarrow> nat list \<Rightarrow> nat \<times> nat" where
  "decodeRune b0 bs =
     (if b0 < 0x80 then (b0, 0)
      else if 0xC2 \<le> b0 \<and> b0 \<le> 0xDF then
        (case bs of
           b1 # _ \<Rightarrow>
             if isCont b1 then ((b0 - 0xC0) * 64 + (b1 - 0x80), 1) else (runeError, 0)
         | _ \<Rightarrow> (runeError, 0))
      else if 0xE0 \<le> b0 \<and> b0 \<le> 0xEF then
        (case bs of
           b1 # b2 # _ \<Rightarrow>
             if (if b0 = 0xE0 then 0xA0 else 0x80) \<le> b1
                \<and> b1 \<le> (if b0 = 0xED then 0x9F else 0xBF) \<and> isCont b2
             then ((b0 - 0xE0) * 4096 + (b1 - 0x80) * 64 + (b2 - 0x80), 2)
             else (runeError, 0)
         | _ \<Rightarrow> (runeError, 0))
      else if 0xF0 \<le> b0 \<and> b0 \<le> 0xF4 then
        (case bs of
           b1 # b2 # b3 # _ \<Rightarrow>
             if (if b0 = 0xF0 then 0x90 else 0x80) \<le> b1
                \<and> b1 \<le> (if b0 = 0xF4 then 0x8F else 0xBF) \<and> isCont b2 \<and> isCont b3
             then ((b0 - 0xF0) * 262144 + (b1 - 0x80) * 4096 + (b2 - 0x80) * 64
                   + (b3 - 0x80), 3)
             else (runeError, 0)
         | _ \<Rightarrow> (runeError, 0))
      else (runeError, 0))"

function decodeRunes :: "nat list \<Rightarrow> nat list" where
  "decodeRunes [] = []"
| "decodeRunes (b0 # bs) =
     (case decodeRune b0 bs of (r, k) \<Rightarrow> r # decodeRunes (drop k bs))"
  by pat_completeness auto
termination
  by (relation "measure length") auto

definition runesOf :: "string \<Rightarrow> nat list" where
  "runesOf s = decodeRunes (map of_char s)"

text \<open>
  \<^verbatim>\<open>utf8.AppendRune\<close>, behind \<^verbatim>\<open>Builder.WriteRune\<close> and \<^verbatim>\<open>strings.Map\<close>: surrogates and
  values above U+10FFFF are written as U+FFFD.
\<close>

definition encodeRune :: "nat \<Rightarrow> string" where
  "encodeRune r =
     (let r' = (if (0xD800 \<le> r \<and> r \<le> 0xDFFF) \<or> 0x10FFFF < r then runeError else r)
      in if r' < 0x80 then [char_of r']
         else if r' < 0x800 then [char_of (0xC0 + r' div 64), char_of (0x80 + r' mod 64)]
         else if r' < 0x10000 then
           [char_of (0xE0 + r' div 4096), char_of (0x80 + (r' div 64) mod 64),
            char_of (0x80 + r' mod 64)]
         else
           [char_of (0xF0 + r' div 262144), char_of (0x80 + (r' div 4096) mod 64),
            char_of (0x80 + (r' div 64) mod 64), char_of (0x80 + r' mod 64)])"

subsection \<open>Parts of the library taken as parameters\<close>

text \<open>
  \<^item> \<open>urlParsePath u\<close> stands for \<^verbatim>\<open>url.Parse(u)\<close>: \<open>None\<close> when it returns an error,
    otherwise the \<^verbatim>\<open>Path\<close> field of the parsed URL.
  \<^item> \<open>pathJoin\<close> stands for \<^verbatim>\<open>filepath.Join\<close> of two elements.
  \<^item> \<open>unicodeIsLetter\<close>, \<open>unicodeIsDigit\<close> and \<open>unicodeToLower\<close> stand for the tables of
    package \<^verbatim>\<open>unicode\<close> above the ASCII range; on ASCII runes the functions are written
    out below.
\<close>

record golib =
  urlParsePath :: "string \<Rightarrow> string option"
  pathJoin :: "string \<Rightarrow> string \<Rightarrow> string"
  unicodeIsLetter :: "nat \<Rightarrow> bool"
  unicodeIsDigit :: "nat \<Rightarrow> bool"
  unicodeToLower :: "nat \<Rightarrow> nat"

definition isUpperAscii :: "nat \<Rightarrow> bool" where
  "isUpperAscii r = (0x41 \<le> r \<and> r \<le> 0x5A)"

definition isLowerAscii :: "nat \<Rightarrow> bool" where
  "isLowerAscii r = (0x61 \<le> r \<and> r \<le> 0x7A)"

definition isDigitAscii :: "nat \<Rightarrow> bool" where
  "isDigitAscii r = (0x30 \<le> r \<and> r \<le> 0x39)"

definition isLetter :: "golib \<Rightarrow> nat \<Rightarrow> bool" where
  "isLetter L r = (if r < 0x80 then isUpperAscii r \<or> isLowerAscii r else unicodeIsLetter L r)"

definition isDigit :: "golib \<Rightarrow> nat \<Rightarrow> bool" where
  "isDigit L r = (if r < 0x80 then isDigitAscii r else unicodeIsDigit L r)"

text \<open>\<^verbatim>\<open>strings.Map(f, s)\<close> where \<open>f\<close> keeps a rune or drops it.\<close>

definition keepRunes :: "(nat \<Rightarrow> bool) \<Rightarrow> string \<Rightarrow> string" where
  "keepRunes keep s = concat (map encodeRune (filter keep (runesOf s)))"

text \<open>
  \<^verbatim>\<open>strings.ToLower\<close>: a string of ASCII bytes is lowered byte by byte, any other string
  rune by rune with \<^verbatim>\<open>unicode.ToLower\<close>.
\<close>

definition lowerAscii :: "nat \<Rightarrow> nat" where
  "lowerAscii r = (if isUpperAscii r then r + 0x20 else r)"

definition toLower :: "golib \<Rightarrow> string \<Rightarrow> string" where
  "toLower L s =
     (if list_all (\<lambda>c. of_char c < (0x80::nat)) s
      then map (\<lambda>c. char_of (lowerAscii (of_char c))) s
      else concat (map (\<lambda>r. encodeRune (if r < 0x80 then lowerAscii r else unicodeToLower L r))
                     (runesOf s)))"

subsection \<open>SHA-1 and hexadecimal encoding\<close>

text \<open>
  \<^verbatim>\<open>crypto/sha1\<close> computes the SHA-1 digest of FIPS 180: the message is padded to a
  multiple of 64 bytes, each block of sixteen big-endian 32-bit words is expanded to
  eighty words and run through eighty rounds, and the five chaining words are written
  out big-endian as twenty bytes.  Bytes are numbers below 256.
\<close>

definition rotl32 :: "nat \<Rightarrow> 32 word \<Rightarrow> 32 word" where
  "rotl32 n x = push_bit n x OR drop_bit (32 - n) x"

definition be64 :: "nat \<Rightarrow> nat list" where
  "be64 n = map (\<lambda>i. (n div 256 ^ (7 - i)) mod 256) [0 ..< 8]"

definition be32 :: "32 word \<Rightarrow> nat list" where
  "be32 w = map (\<lambda>i. unat (drop_bit (8 * (3 - i)) w) mod 256) [0 ..< 4]"

definition sha1Pad :: "nat list \<Rightarrow> nat list" where
  "sha1Pad msg =
     msg @ [0x80] @ replicate ((64 - (length msg + 9) mod 64) mod 64) 0
       @ be64 (8 * length msg)"

definition wordAt :: "nat list \<Rightarrow> nat \<Rightarrow> 32 word" where
  "wordAt block i =
     of_nat (block ! (4 * i) * 16777216 + block ! (4 * i + 1) * 65536
             + block ! (4 * i + 2) * 256 + block ! (4 * i + 3))"

definition sha1Extend :: "nat \<Rightarrow> 32 word list \<Rightarrow> 32 word list" where
  "sha1Extend t w =
     w @ [rotl32 1 (w ! (t - 3) XOR w ! (t - 8) XOR w ! (t - 14) XOR w ! (t - 16))]"

definition sha1Schedule :: "nat list \<Rightarrow> 32 word list" where
  "sha1Schedule block = fold sha1Extend [16 ..< 80] (map (wordAt block) [0 ..< 16])"

definition sha1F :: "nat \<Rightarrow> 32 word \<Rightarrow> 32 word \<Rightarrow> 32 word \<Rightarrow> 32 word" where
  "sha1F t b c d =
     (if t < 20 then (b AND c) OR (NOT b AND d)
      else if t < 40 then b XOR c XOR d
      else if t < 60 then (b AND c) OR (b AND d) OR (c AND d)
      else b XOR c XOR d)"

definition sha1K :: "nat \<Rightarrow> 32 word" where
  "sha1K t =
     (if t < 20 then 0x5A827999
      else if t < 40 then 0x6ED9EBA1
      else if t < 60 then 0x8F1BBCDC
      else 0xCA62C1D6)"

type_synonym sha1state = "32 word \<times> 32 word \<times> 32 word \<times> 32 word \<times> 32 word"

fun sha1Round :: "32 word list \<Rightarrow> nat \<Rightarrow> sha1state \<Rightarrow> sha1state" where
  "sha1Round w t (a, b, c, d, e) =
     (rotl32 5 a + sha1F t b c d + e + sha1K t + w ! t, a, rotl32 30 b, c, d)"

fun addState :: "sha1state \<Rightarrow> sha1state \<Rightarrow> sha1state" where
  "addState (h0, h1, h2, h3, h4) (a, b, c, d, e) = (h0 + a, h1 + b, h2 + c, h3 + d, h4 + e)"

definition sha1Block :: "nat list \<Rightarrow> sha1state \<Rightarrow> sha1state" where
  "sha1Block block h = addState h (fold (sha1Round (sha1Schedule block)) [0 ..< 80] h)"

definition sha1Init :: sha1state where
  "sha1Init = (0x67452301, 0xEFCDAB89, 0x98BADCFE, 0x10325476, 0xC3D2E1F0)"

definition blocksOf :: "nat list \<Rightarrow> nat list list" where
  "blocksOf bs = map (\<lambda>i. take 64 (drop (64 * i) bs)) [0 ..< length bs div 64]"

fun digestBytes :: "sha1state \<Rightarrow> nat list" where
  "digestBytes (h0, h1, h2, h3, h4) = be32 h0 @ be32 h1 @ be32 h2 @ be32 h3 @ be32 h4"

definition sha1Sum :: "string \<Rightarrow> nat list" where
  "sha1Sum msg = digestBytes (fold sha1Block (blocksOf (sha1Pad (map of_char msg))) sha1Init)"

text \<open>
  A word read as a number and written back: the same word, with its numeral below
  \<open>2 ^ 32\<close>.  It keeps the numerals small where a digest is computed step by step.
\<close>

definition norm32 :: "32 word \<Rightarrow> 32 word" where
  "norm32 x = of_nat (unat x)"

text \<open>\<^verbatim>\<open>hex.EncodeToString\<close>: two lower-case digits for each byte.\<close>

definition hexDigit :: "nat \<Rightarrow> char" where
  "hexDigit n = ''0123456789abcdef'' ! n"

definition hexEncode :: "nat list \<Rightarrow> string" where
  "hexEncode bs = concat (map (\<lambda>b. [hexDigit (b div 16), hexDigit (b mod 16)]) bs)"

section \<open>Filename synthesis\<close>

text \<open>The table \<^verbatim>\<open>cyrillicToLatin\<close>, its keys as code points.\<close>

definition cyrillicToLatin :: "(nat \<times> string) list" where
  "cyrillicToLatin =
     [(0x0410, ''A''), (0x0411, ''B''), (0x0412, ''V''), (0x0413, ''H''), (0x0490, ''G''),
      (0x0414, ''D''), (0x0415, ''E''), (0x0404, ''Ye''), (0x0416, ''Zh''), (0x0417, ''Z''),
      (0x0418, ''Y''), (0x0406, ''I''), (0x0407, ''Yi''), (0x0419, ''Y''), (0x041A, ''K''),
      (0x041B, ''L''), (0x041C, ''M''), (0x041D, ''N''), (0x041E, ''O''), (0x041F, ''P''),
      (0x0420, ''R''), (0x0421, ''S''), (0x0422, ''T''), (0x0423, ''U''), (0x0424, ''F''),
      (0x0425, ''Kh''), (0x0426, ''Ts''), (0x0427, ''Ch''), (0x0428, ''Sh''),
      (0x0429, ''Shch''), (0x042E, ''Yu''), (0x042F, ''Ya''), (0x042C, []),
      (0x0430, ''a''), (0x0431, ''b''), (0x0432, ''v''), (0x0433, ''h''), (0x0491, ''g''),
      (0x0434, ''d''), (0x0435, ''e''), (0x0454, ''ye''), (0x0436, ''zh''), (0x0437, ''z''),
      (0x0438, ''y''), (0x0456, ''i''), (0x0457, ''yi''), (0x0439, ''y''), (0x043A, ''k''),
      (0x043B, ''l''), (0x043C, ''m''), (0x043D, ''n''), (0x043E, ''o''), (0x043F, ''p''),
      (0x0440, ''r''), (0x0441, ''s''), (0x0442, ''t''), (0x0443, ''u''), (0x0444, ''f''),
      (0x0445, ''kh''), (0x0446, ''ts''), (0x0447, ''ch''), (0x0448, ''sh''),
      (0x0449, ''shch''), (0x044E, ''yu''), (0x044F, ''ya''), (0x044C, []),
      (0x0401, ''E''), (0x042B, ''Y''), (0x042D, ''E''), (0x0451, ''e''), (0x044B, ''y''),
      (0x044D, ''e'')]"

text \<open>The class \<^verbatim>\<open>[^\w-]\<close>: Go's \<^verbatim>\<open>\w\<close> is the ASCII class \<^verbatim>\<open>[0-9A-Za-z_]\<close>.\<close>

definition wordOrHyphen :: string where
  "wordOrHyphen = ''0123456789ABCDEFGHIJKLMNOPQRSTUVWXYZabcdefghijklmnopqrstuvwxyz_-''"

definition nonWordRe :: "item list" where
  "nonWordRe = [One (NotIn wordOrHyphen)]"

text \<open>\<^verbatim>\<open>ReplaceAllString(s, repl)\<close> for a replacement without \<^verbatim>\<open>$\<close>.\<close>

fun segReplace :: "string \<Rightarrow> seg \<Rightarrow> string" where
  "segReplace repl (Lit c) = [c]"
| "segReplace repl (Match ps) = repl"

definition replaceAllString :: "item list \<Rightarrow> string \<Rightarrow> string \<Rightarrow> string" where
  "replaceAllString re s repl = concat (map (segReplace repl) (scan re s))"

text \<open>
  \<^verbatim>\<open>transliterate\<close>: (1) every rune of the table is replaced by its Latin text, any other
  rune is written back; (2) spaces become hyphens and every match of \<^verbatim>\<open>[^\w-]\<close> is
  deleted; (3) \<^verbatim>\<open>strings.Map\<close> keeps hyphens, letters and digits; (4) lower case.
\<close>

definition transliterateRune :: "nat \<Rightarrow> string" where
  "transliterateRune char =
     (case map_of cyrillicToLatin char of Some latin \<Rightarrow> latin | None \<Rightarrow> encodeRune char)"

definition transliterate :: "golib \<Rightarrow> string \<Rightarrow> string" where
  "transliterate L filename =
     (let built = concat (map transliterateRune (runesOf filename));
          spaced = map (\<lambda>c. if c = CHR '' '' then CHR ''-'' else c) built;
          stripped = replaceAllString nonWordRe spaced [];
          kept = keepRunes (\<lambda>r. r = 0x2D \<or> isLetter L r \<or> isDigit L r) stripped
      in toLower L kept)"

text \<open>The first lines of \<^verbatim>\<open>downloadAndSaveImage\<close>: the URL to fetch.\<close>

definition resolveURL :: "string \<Rightarrow> string \<Rightarrow> string" where
  "resolveURL imageURL hostname =
     (if hasPrefix imageURL ''//'' then ''https:'' @ imageURL
      else if \<not> hasPrefix imageURL ''http''
        then trimRight hostname ''/'' @ ''/'' @ trimLeft imageURL ''/''
      else imageURL)"

text \<open>
  The filename lines of \<^verbatim>\<open>downloadAndSaveImage\<close>, from the resolved URL and the
  \<^verbatim>\<open>Path\<close> of its parse.
\<close>

definition uniquePartOf :: "string list \<Rightarrow> string" where
  "uniquePartOf pathParts =
     (if 3 \<le> length pathParts
        then joinWith ''_'' (take 2 (drop (length pathParts - 3) pathParts))
      else if 2 \<le> length pathParts then pathParts ! (length pathParts - 2)
      else [])"

definition filenameWithExtOf :: "string \<Rightarrow> string" where
  "filenameWithExtOf path = hd (splitOn (CHR ''?'') (pathBase path))"

definition extensionOf :: "string \<Rightarrow> string" where
  "extensionOf path =
     (if pathExt (filenameWithExtOf path) = [] then ''.jpg''
      else pathExt (filenameWithExtOf path))"

definition hashOf :: "string \<Rightarrow> string" where
  "hashOf imageURL = take 4 (hexEncode (sha1Sum imageURL))"

definition stemOf :: "golib \<Rightarrow> string \<Rightarrow> string \<Rightarrow> string" where
  "stemOf L imageURL path =
     (let uniquePart = uniquePartOf (splitOn (CHR ''/'') path);
          filename = trimSuffix (filenameWithExtOf path) (pathExt (filenameWithExtOf path))
      in transliterate L (hashOf imageURL @ ''-'' @ uniquePart @ ''-'' @ filename))"

definition synthFilename :: "golib \<Rightarrow> string \<Rightarrow> string \<Rightarrow> string" where
  "synthFilename L imageURL path = stemOf L imageURL path @ extensionOf path"

section \<open>The asset fetcher\<close>

text \<open>
  What the network and the file system answer is a parameter of the model.
  \<^item> \<open>httpDo u\<close> is the outcome of \<^verbatim>\<open>client.Do\<close> for a GET of \<open>u\<close>: a transport error, or
    a response with its status code, its declared \<^verbatim>\<open>ContentLength\<close>, the body bytes that
    \<^verbatim>\<open>io.Copy\<close> writes, and whether \<^verbatim>\<open>io.Copy\<close> ends without error.
  \<^item> \<open>mkdirAllOk\<close>, \<open>createOk\<close> and \<open>fstatOk\<close> tell whether \<^verbatim>\<open>os.MkdirAll\<close>, \<^verbatim>\<open>os.Create\<close>
    and \<^verbatim>\<open>File.Stat\<close> succeed on a path; \<open>outputCreateOk\<close> and \<open>outputWriteOk\<close> do so for
    the output file of \<^verbatim>\<open>writeCSV\<close>.
  The set \<open>files\<close> threaded through the fetches holds the paths on which \<^verbatim>\<open>os.Stat\<close>
  succeeds; a created file joins it.  The console log lines are not modelled.
\<close>

datatype response = TransportError | Response nat int string bool

record world =
  httpDo :: "string \<Rightarrow> response"
  mkdirAllOk :: "string \<Rightarrow> bool"
  createOk :: "string \<Rightarrow> bool"
  fstatOk :: "string \<Rightarrow> bool"
  outputCreateOk :: "string \<Rightarrow> bool"
  outputWriteOk :: "string \<Rightarrow> bool"

datatype error =
    NoData
  | MissingColumn string
  | IndexOutOfRange
  | InvalidImageURL
  | MkdirFailed
  | RequestFailed
  | TransportFailed
  | BadStatus nat
  | CreateFailed
  | SaveFailed
  | SizeMismatch int int
  | OutputCreateFailed
  | OutputWriteFailed

text \<open>
  A progress value is the literal 0 or the quotient of two counters converted to
  \<^verbatim>\<open>float64\<close>.  The quotient is kept as the pair of counters: for a positive denominator
  the rounded quotient lies in the unit interval exactly when the numerator is at most
  the denominator, and a zero denominator gives an infinity or a NaN.
\<close>

datatype progress = Zero | Quot nat nat

fun inUnitInterval :: "progress \<Rightarrow> bool" where
  "inUnitInterval Zero = True"
| "inUnitInterval (Quot n d) = (0 < d \<and> n \<le> d)"

datatype event =
    ProgressSet progress
  | StatusSet string
  | MkdirAll string
  | HttpGet string
  | FileCreate string
  | OutputCreate string
  | OutputWrite string char "string list list"

text \<open>
  \<^verbatim>\<open>downloadAndSaveImage\<close> returns the error or the relative path, the effects it had, and
  the files that exist afterwards.  \<^verbatim>\<open>http.NewRequest\<close> parses the URL once more.
  \<^verbatim>\<open>filepath.ToSlash\<close> is the identity on a Unix build.
\<close>

definition downloadAndSaveImage ::
  "golib \<Rightarrow> world \<Rightarrow> string set \<Rightarrow> string \<Rightarrow> string \<Rightarrow> string
     \<Rightarrow> (error + string) \<times> event list \<times> string set" where
  "downloadAndSaveImage L W files link hostname imagedir =
     (let imageURL = resolveURL link hostname
      in case urlParsePath L imageURL of
           None \<Rightarrow> (Inl InvalidImageURL, [], files)
         | Some path \<Rightarrow>
             let filename = synthFilename L imageURL path;
                 imageDirPath = pathJoin L ''files'' imagedir
             in if \<not> mkdirAllOk W imageDirPath
                then (Inl MkdirFailed, [MkdirAll imageDirPath], files)
                else
                  let filePath = pathJoin L imageDirPath filename;
                      relativePath = imagedir @ filename
                  in if filePath \<in> files
                     then (Inr relativePath, [MkdirAll imageDirPath], files)
                     else
                       (case urlParsePath L imageURL of
                          None \<Rightarrow> (Inl RequestFailed, [MkdirAll imageDirPath], files)
                        | Some _ \<Rightarrow>
                            (case httpDo W imageURL of
                               TransportError \<Rightarrow>
                                 (Inl TransportFailed,
                                  [MkdirAll imageDirPath, HttpGet imageURL], files)
                             | Response status contentLength body copied \<Rightarrow>
                                 if status \<noteq> 200
                                 then (Inl (BadStatus status),
                                       [MkdirAll imageDirPath, HttpGet imageURL], files)
                                 else if \<not> createOk W filePath
                                 then (Inl CreateFailed,
                                       [MkdirAll imageDirPath, HttpGet imageURL], files)
                                 else if \<not> copied
                                 then (Inl SaveFailed,
                                       [MkdirAll imageDirPath, HttpGet imageURL,
                                        FileCreate filePath],
                                       insert filePath files)
                                 else if 0 < contentLength \<and> fstatOk W filePath
                                         \<and> int (length body) \<noteq> contentLength
                                 then (Inl (SizeMismatch contentLength (int (length body))),
                                       [MkdirAll imageDirPath, HttpGet imageURL,
                                        FileCreate filePath],
                                       insert filePath files)
                                 else (Inr relativePath,
                                       [MkdirAll imageDirPath, HttpGet imageURL,
                                        FileCreate filePath],
                                       insert filePath files))))"

section \<open>The batch orchestrator\<close>

text \<open>\<^verbatim>\<open>%d\<close> of \<^verbatim>\<open>fmt.Sprintf\<close> for a number that is not negative.\<close>

function showNat :: "nat \<Rightarrow> string" where
  "showNat n =
     (if n < 10 then [''0123456789'' ! n]
      else showNat (n div 10) @ [''0123456789'' ! (n mod 10)])"
  by pat_completeness auto
termination
  by (relation "measure id") auto

text \<open>\<^verbatim>\<open>updateStatus\<close>\<close>

definition updateStatus :: "string \<Rightarrow> event" where
  "updateStatus status = StatusSet (''Status: '' @ status)"

text \<open>The header loop: a later column of the same name overwrites an earlier one.\<close>

fun headerLoop :: "nat \<Rightarrow> string list \<Rightarrow> (string \<rightharpoonup> nat) \<Rightarrow> (string \<rightharpoonup> nat)" where
  "headerLoop i [] headerMap = headerMap"
| "headerLoop i (h # hs) headerMap = headerLoop (Suc i) hs (headerMap(h \<mapsto> i))"

definition requiredColumns :: "string list" where
  "requiredColumns = [''body_uk'', ''body_ru'']"

fun firstMissing :: "(string \<rightharpoonup> nat) \<Rightarrow> string list \<Rightarrow> string option" where
  "firstMissing headerMap [] = None"
| "firstMissing headerMap (col # cols) =
     (case headerMap col of None \<Rightarrow> Some col | Some _ \<Rightarrow> firstMissing headerMap cols)"

text \<open>Indexing a Go map gives the zero value for an absent key.\<close>

definition columnOf :: "(string \<rightharpoonup> nat) \<Rightarrow> string \<Rightarrow> nat" where
  "columnOf headerMap col = (case headerMap col of Some i \<Rightarrow> i | None \<Rightarrow> 0)"

text \<open>
  The collecting loop.  \<open>imageLinkSet\<close> is the key set of the Go map.  A row shorter than
  one of the two column indices makes the index expression panic.
\<close>

fun collectLinks ::
  "nat \<Rightarrow> nat \<Rightarrow> string list list \<Rightarrow> string set \<Rightarrow> error + string set" where
  "collectLinks iu ir [] imageLinkSet = Inr imageLinkSet"
| "collectLinks iu ir (row # rows) imageLinkSet =
     (if length row \<le> iu \<or> length row \<le> ir then Inl IndexOutOfRange
      else collectLinks iu ir rows
             (fold insert (extractImageLinks (row ! ir))
                (fold insert (extractImageLinks (row ! iu)) imageLinkSet)))"

text \<open>
  \<^verbatim>\<open>for link := range imageLinkSet\<close> visits every key once, in an order the runtime
  chooses: \<open>allImageLinks\<close> is any list for which \<open>rangeOver imageLinkSet allImageLinks\<close>.
\<close>

definition rangeOver :: "string set \<Rightarrow> string list \<Rightarrow> bool" where
  "rangeOver imageLinkSet allImageLinks =
     (distinct allImageLinks \<and> set allImageLinks = imageLinkSet)"

text \<open>
  The download phase.  Every fetch task runs \<^verbatim>\<open>downloadAndSaveImage\<close> and, on success,
  updates the map, the counter and the progress under the mutex.  The tasks are taken one
  after the other, in the order of \<open>allImageLinks\<close>; a failed task changes neither the
  map nor the counter.
\<close>

record fetchState =
  pathMap :: "string \<rightharpoonup> string"
  completed :: nat
  existing :: "string set"
  trace :: "event list"

definition downloadedStatus :: "nat \<Rightarrow> nat \<Rightarrow> string \<Rightarrow> string" where
  "downloadedStatus stepsCompleted totalImages link =
     ''Downloaded '' @ showNat stepsCompleted @ '' of '' @ showNat totalImages
       @ '' images'' @ [CHR 0x0A] @ ''loading '' @ link @ [CHR 0x0A]"

fun downloadLoop ::
  "golib \<Rightarrow> world \<Rightarrow> string \<Rightarrow> string \<Rightarrow> nat \<Rightarrow> string list \<Rightarrow> fetchState \<Rightarrow> fetchState" where
  "downloadLoop L W hostname imagedir totalSteps [] st = st"
| "downloadLoop L W hostname imagedir totalSteps (link # links) st =
     (case downloadAndSaveImage L W (existing st) link hostname imagedir of
        (Inl err, evs, files') \<Rightarrow>
          downloadLoop L W hostname imagedir totalSteps links
            (st\<lparr>existing := files', trace := trace st @ evs\<rparr>)
      | (Inr newPath, evs, files') \<Rightarrow>
          downloadLoop L W hostname imagedir totalSteps links
            (st\<lparr>pathMap := (pathMap st)(link \<mapsto> newPath),
               completed := Suc (completed st),
               existing := files',
               trace := trace st @ evs @
                 [ProgressSet (Quot (Suc (completed st)) totalSteps),
                  updateStatus (downloadedStatus (Suc (completed st)) totalSteps link)]\<rparr>))"

text \<open>
  The rewriting loop: both columns of every data row are rewritten in place and the same
  counter is incremented.  It runs only after \<open>collectLinks\<close> has indexed every row.
\<close>

fun rewriteLoop ::
  "nat \<Rightarrow> nat \<Rightarrow> (string \<rightharpoonup> string) \<Rightarrow> nat \<Rightarrow> string list list \<Rightarrow> nat
     \<Rightarrow> string list list \<times> event list" where
  "rewriteLoop iu ir imagePathMap totalSteps [] stepsCompleted = ([], [])"
| "rewriteLoop iu ir imagePathMap totalSteps (row # rows) stepsCompleted =
     (let newBodyUk = replaceImageLinks (row ! iu) imagePathMap;
          newBodyRu = replaceImageLinks (row ! ir) imagePathMap;
          rest = rewriteLoop iu ir imagePathMap totalSteps rows (Suc stepsCompleted)
      in ((row[iu := newBodyUk])[ir := newBodyRu] # fst rest,
          ProgressSet (Quot (Suc stepsCompleted) totalSteps) # snd rest))"

text \<open>\<^verbatim>\<open>writeCSV\<close>; \<^verbatim>\<open>csv.NewWriter\<close> starts with the comma.\<close>

definition separatorOf :: "string \<Rightarrow> char" where
  "separatorOf selectedSeparator =
     (if selectedSeparator = ''Comma (,)'' then CHR '',''
      else if selectedSeparator = ''Semicolon (;)'' then CHR '';''
      else if selectedSeparator = ''Tab ('' @ [CHR 0x5C] @ ''t)'' then CHR 0x09
      else CHR '','')"

definition writeCSV ::
  "world \<Rightarrow> string list list \<Rightarrow> string \<Rightarrow> string \<Rightarrow> error option \<times> event list" where
  "writeCSV W records outputFileName selectedSeparator =
     (if \<not> outputCreateOk W outputFileName then (Some OutputCreateFailed, [])
      else if \<not> outputWriteOk W outputFileName
        then (Some OutputWriteFailed, [OutputCreate outputFileName])
      else (None,
            [OutputCreate outputFileName,
             OutputWrite outputFileName (separatorOf selectedSeparator) records]))"

text \<open>
  \<^verbatim>\<open>processRecords\<close>.  \<open>order\<close> is the runtime's choice of the order in which the keys of
  \<open>imageLinkSet\<close> are visited and their tasks complete.  The outcome holds the returned
  error, the records as the caller sees them afterwards, the final map and the effects.
\<close>

record outcome =
  returned :: "error option"
  recordsAfter :: "string list list"
  finalMap :: "string \<rightharpoonup> string"
  effects :: "event list"

definition processRecords ::
  "golib \<Rightarrow> world \<Rightarrow> string set \<Rightarrow> (string set \<Rightarrow> string list) \<Rightarrow> string list list
     \<Rightarrow> string \<Rightarrow> string \<Rightarrow> string \<Rightarrow> string \<Rightarrow> outcome" where
  "processRecords L W files order records hostname imagedir outputFileName selectedSeparator =
     (if length records < 2
      then \<lparr>returned = Some NoData, recordsAfter = records, finalMap = Map.empty,
            effects = []\<rparr>
      else
        let headerMap = headerLoop 0 (hd records) Map.empty
        in case firstMissing headerMap requiredColumns of
             Some col \<Rightarrow>
               \<lparr>returned = Some (MissingColumn col), recordsAfter = records,
                finalMap = Map.empty, effects = []\<rparr>
           | None \<Rightarrow>
               let iu = columnOf headerMap ''body_uk'';
                   ir = columnOf headerMap ''body_ru''
               in case collectLinks iu ir (tl records) {} of
                    Inl err \<Rightarrow>
                      \<lparr>returned = Some err, recordsAfter = records, finalMap = Map.empty,
                       effects = [ProgressSet Zero]\<rparr>
                  | Inr imageLinkSet \<Rightarrow>
                      let allImageLinks = order imageLinkSet;
                          totalSteps = length allImageLinks;
                          st = downloadLoop L W hostname imagedir totalSteps allImageLinks
                                 \<lparr>pathMap = Map.empty, completed = 0, existing = files,
                                  trace = []\<rparr>;
                          rewritten = rewriteLoop iu ir (pathMap st) totalSteps (tl records)
                                        (completed st);
                          records' = hd records # fst rewritten;
                          written = writeCSV W records' outputFileName selectedSeparator
                      in \<lparr>returned = fst written, recordsAfter = records',
                          finalMap = pathMap st,
                          effects =
                            [ProgressSet Zero, updateStatus ''Downloading images...'']
                            @ trace st @ snd rewritten
                            @ [updateStatus ''Writing to output file...'']
                            @ snd written\<rparr>)"

text \<open>The reference set of a table, as \<^verbatim>\<open>processRecords\<close> collects it.\<close>

definition collected :: "string list list \<Rightarrow> error + string set" where
  "collected records =
     (let headerMap = headerLoop 0 (hd records) Map.empty
      in collectLinks (columnOf headerMap ''body_uk'') (columnOf headerMap ''body_ru'')
           (tl records) {})"

text \<open>Every raw occurrence of a reference in the two columns of the data rows.\<close>

definition rawOccurrences :: "string list list \<Rightarrow> string list" where
  "rawOccurrences records =
     (let headerMap = headerLoop 0 (hd records) Map.empty
      in concat (map (\<lambda>row. extractImageLinks (row ! columnOf headerMap ''body_uk'')
                              @ extractImageLinks (row ! columnOf headerMap ''body_ru''))
                   (tl records)))"

text \<open>A reference as the tag pattern can capture it.\<close>

definition quoteFree :: "string \<Rightarrow> bool" where
  "quoteFree link = (link \<noteq> [] \<and> dq \<notin> set link \<and> sq \<notin> set link)"

section \<open>A sample run\<close>

text \<open>
  The rows, host name and image directory of the example of the specification.  The
  sample library agrees with Go on what the sample runs pass to it: \<^verbatim>\<open>url.Parse\<close> gives
  the paths \<^verbatim>\<open>/a.jpg\<close>, \<^verbatim>\<open>/b.png\<close> and \<^verbatim>\<open>/c.gif\<close> of the three URLs, and \<^verbatim>\<open>filepath.Join\<close>
  gives \<^verbatim>\<open>files/u\<close> for \<^verbatim>\<open>files\<close> and \<^verbatim>\<open>/u/\<close> and appends a file name to that directory
  after a slash.  In the sample world every request is answered with status 200 and a
  body of three bytes, and no file exists before the run.
\<close>

definition sampleLib :: golib where
  "sampleLib =
     \<lparr>urlParsePath = (\<lambda>u. if u = ''https://site.ua/a.jpg'' then Some ''/a.jpg''
                          else if u = ''http://x.com/b.png'' then Some ''/b.png''
                          else if u = ''https://site.ua/c.gif'' then Some ''/c.gif''
                          else None),
      pathJoin = (\<lambda>a b. if a = ''files'' then ''files/u'' else a @ ''/'' @ b),
      unicodeIsLetter = (\<lambda>r. False),
      unicodeIsDigit = (\<lambda>r. False),
      unicodeToLower = (\<lambda>r. r)\<rparr>"

definition sampleWorld :: world where
  "sampleWorld =
     \<lparr>httpDo = (\<lambda>u. Response 200 3 ''abc'' True),
      mkdirAllOk = (\<lambda>p. True),
      createOk = (\<lambda>p. True),
      fstatOk = (\<lambda>p. True),
      outputCreateOk = (\<lambda>p. True),
      outputWriteOk = (\<lambda>p. True)\<rparr>"

definition imgWithSrc :: "string \<Rightarrow> string" where
  "imgWithSrc src = ''<img src='' @ [sq] @ src @ [sq] @ ''>''"

definition sampleRecords :: "string list list" where
  "sampleRecords =
     [[''body_uk'', ''body_ru''],
      [imgWithSrc ''/a.jpg'', []],
      [imgWithSrc ''http://x.com/b.png'', []]]"

definition sampleOrder :: "string set \<Rightarrow> string list" where
  "sampleOrder S = [''http://x.com/b.png'', ''/a.jpg'']"

definition sampleRun :: outcome where
  "sampleRun =
     processRecords sampleLib sampleWorld {} sampleOrder sampleRecords
       ''https://site.ua'' ''/u/'' ''output.csv'' ''Semicolon (;)''"

text \<open>A table without the column \<^verbatim>\<open>body_ru\<close>, and a table that cites its references
  several times.\<close>

definition noRuRecords :: "string list list" where
  "noRuRecords = [[''body_uk'', ''title''], [imgWithSrc ''/a.jpg'', ''A'']]"

definition citedTwiceRecords :: "string list list" where
  "citedTwiceRecords =
     [[''body_uk'', ''body_ru''],
      [imgWithSrc ''/a.jpg'' @ ''<p>'' @ imgWithSrc ''/a.jpg'', imgWithSrc ''/b.png''],
      [imgWithSrc ''/b.png'', imgWithSrc ''/a.jpg'']]"




definition originalLinkOf :: "string \<Rightarrow> string option" where
  "originalLinkOf tag =
     (case findFirst srcRe tag of
        Some srcMatch \<Rightarrow> Some (srcMatch ! srcGroup)
      | None \<Rightarrow> None)"

text \<open>Sample inputs of the rewriter.\<close>

definition altTag :: string where
  "altTag = ''<img alt='' @ [dq] @ ''a.jpg'' @ [dq] @ '' src='' @ [dq] @ ''a.jpg'' @ [dq] @ ''>''"


text \<open>
  The pattern \<^verbatim>\<open>^[a-z0-9-]+\.[a-z0-9]+$\<close> of the specification.  The first class has no
  dot, so the body of a match is the longest prefix in that class.
\<close>

definition lowerAlnum :: string where
  "lowerAlnum = ''abcdefghijklmnopqrstuvwxyz0123456789''"

definition lowerAlnumHyphen :: string where
  "lowerAlnumHyphen = ''abcdefghijklmnopqrstuvwxyz0123456789-''"

definition matchesFilenamePattern :: "string \<Rightarrow> bool" where
  "matchesFilenamePattern s =
     (let body = takeWhile (\<lambda>c. c \<in> set lowerAlnumHyphen) s
      in body \<noteq> [] \<and>
         (case drop (length body) s of
            [] \<Rightarrow> False
          | d # ext \<Rightarrow> d = CHR ''.'' \<and> ext \<noteq> [] \<and> list_all (\<lambda>c. c \<in> set lowerAlnum) ext))"

text \<open>
  What steps 2 to 4 of \<^verbatim>\<open>transliterate\<close> amount to on bytes: spaces become hyphens, only
  ASCII letters, digits and hyphens stay, and capitals are lowered.
\<close>

definition alnumHyphen :: string where
  "alnumHyphen = ''0123456789ABCDEFGHIJKLMNOPQRSTUVWXYZabcdefghijklmnopqrstuvwxyz-''"

definition lowerChar :: "char \<Rightarrow> char" where
  "lowerChar c = char_of (lowerAscii (of_char c))"

definition sanitize :: "string \<Rightarrow> string" where
  "sanitize s =
     map lowerChar
       (filter (\<lambda>c. c \<in> set alnumHyphen) (map (\<lambda>c. if c = CHR '' '' then CHR ''-'' else c) s))"


fun progressOf :: "event \<Rightarrow> progress list" where
  "progressOf (ProgressSet p) = [p]"
| "progressOf _ = []"

definition progressValues :: "event list \<Rightarrow> progress list" where
  "progressValues evs = concat (map progressOf evs)"

fun requestOf :: "event \<Rightarrow> string list" where
  "requestOf (HttpGet u) = [u]"
| "requestOf _ = []"

definition requests :: "event list \<Rightarrow> string list" where
  "requests evs = concat (map requestOf evs)"





section \<open>The matcher\<close>

text \<open>
  A match consumes a prefix of the text, piece by piece, and every piece fits its item.
\<close>

lemma firstSome_SomeD: "firstSome f xs = Some y \<Longrightarrow> \<exists>x \<in> set xs. f x = Some y"
  by (induction xs) (auto split: option.splits)

lemma list_all_take_takeWhile:
  "n \<le> length (takeWhile P s) \<Longrightarrow> list_all P (take n s)"
proof (induction s arbitrary: n)
  case Nil
  then show ?case by simp
next
  case (Cons x xs)
  then show ?case by (cases n) (auto split: if_splits)
qed

lemma matchItems_sound:
  "matchItems its s = Some ps \<Longrightarrow>
     list_all2 fits its ps \<and> take (length (concat ps)) s = concat ps"
proof (induction its arbitrary: s ps)
  case Nil
  then show ?case by simp
next
  case (Cons it its)
  show ?case
  proof (cases it)
    case (One c)
    with Cons.prems obtain x xs qs where s: "s = x # xs" and x: "inCls c x"
      and m: "matchItems its xs = Some qs" and ps: "ps = [x] # qs"
      by (auto split: list.splits if_splits)
    from Cons.IH[OF m] show ?thesis using One s x ps by simp
  next
    case (Many mn c)
    with Cons.prems
    have "firstSome (\<lambda>n. map_option (Cons (take n s)) (matchItems its (drop n s)))
        (rev [mn ..< Suc (length (takeWhile (inCls c) s))]) = Some ps"
      by (simp add: Let_def)
    from firstSome_SomeD[OF this]
    obtain n where n: "n \<in> set (rev [mn ..< Suc (length (takeWhile (inCls c) s))])"
      and m: "map_option (Cons (take n s)) (matchItems its (drop n s)) = Some ps"
      by blast
    then obtain qs where q: "matchItems its (drop n s) = Some qs" and ps: "ps = take n s # qs"
      by auto
    from n have nb: "mn \<le> n" "n \<le> length (takeWhile (inCls c) s)" by auto
    then have nl: "n \<le> length s" using length_takeWhile_le[of "inCls c" s] by linarith
    have all: "list_all (inCls c) (take n s)" using nb(2) by (rule list_all_take_takeWhile)
    from Cons.IH[OF q] have ih: "list_all2 fits its qs"
      "take (length (concat qs)) (drop n s) = concat qs" by auto
    have "take (n + length (concat qs)) s = take n s @ take (length (concat qs)) (drop n s)"
      by (simp add: take_add)
    then show ?thesis using Many ps ih nb nl all by (simp add: min_def)
  qed
qed

lemma scan_Match:
  "Match ps \<in> set (scan its s) \<Longrightarrow> \<exists>t. matchItems its t = Some ps \<and> concat ps \<noteq> []"
proof (induction its s rule: scan.induct)
  case (1 its)
  then show ?case by simp
next
  case (2 its c cs)
  show ?case
  proof (cases "matchItems its (c # cs)")
    case None
    with "2.prems" have "Match ps \<in> set (scan its cs)" by simp
    with "2.IH"(1)[OF None] show ?thesis .
  next
    case (Some qs)
    show ?thesis
    proof (cases "concat qs = []")
      case True
      with Some "2.prems" have "Match ps \<in> set (scan its cs)"
        by (simp del: concat_eq_Nil_conv)
      with "2.IH"(2)[OF Some True] show ?thesis .
    next
      case False
      with Some "2.prems"
      have "ps = qs \<or> Match ps \<in> set (scan its (drop (length (concat qs)) (c # cs)))"
        by (simp del: concat_eq_Nil_conv)
      then show ?thesis
      proof
        assume "ps = qs"
        with Some False show ?thesis by blast
      next
        assume "Match ps \<in> set (scan its (drop (length (concat qs)) (c # cs)))"
        with "2.IH"(3)[OF Some False] show ?thesis .
      qed
    qed
  qed
qed

lemma length_tagRe: "length tagRe = 14"
  by (simp add: tagRe_def lit_def)

lemma tagRe_group: "tagRe ! tagGroup = Many 1 (NotIn quotes)"
  by (simp add: tagRe_def lit_def tagGroup_def)

lemma tag_capture_quoteFree:
  assumes "matchItems tagRe t = Some ps"
  shows "quoteFree (ps ! tagGroup)"
proof -
  from matchItems_sound[OF assms] have l2: "list_all2 fits tagRe ps" by simp
  have "tagGroup < length tagRe" by (simp add: length_tagRe tagGroup_def)
  from list_all2_nthD[OF l2 this] have "fits (Many 1 (NotIn quotes)) (ps ! tagGroup)"
    by (simp add: tagRe_group)
  then show ?thesis
    by (cases "ps ! tagGroup") (auto simp: quoteFree_def quotes_def list_all_iff)
qed

lemma extractImageLinks_quoteFree:
  "link \<in> set (extractImageLinks htmlContent) \<Longrightarrow> quoteFree link"
proof -
  assume "link \<in> set (extractImageLinks htmlContent)"
  then obtain sg where sg: "sg \<in> set (scan tagRe htmlContent)" and l: "link \<in> set (segLinks sg)"
    by (auto simp: extractImageLinks_def)
  from l obtain ps where "sg = Match ps" and "link = ps ! tagGroup"
    by (cases sg) auto
  with sg scan_Match[of ps tagRe htmlContent] tag_capture_quoteFree show ?thesis by blast
qed

lemma fold_insert_set: "fold insert xs S = set xs \<union> S"
  by (induction xs arbitrary: S) auto

lemma collectLinks_subset:
  "collectLinks iu ir rows S0 = Inr S \<Longrightarrow>
     S = S0 \<union> set (concat (map (\<lambda>row. extractImageLinks (row ! iu) @ extractImageLinks (row ! ir)) rows))"
proof (induction rows arbitrary: S0)
  case Nil
  then show ?case by simp
next
  case (Cons row rows)
  then show ?case by (auto simp: fold_insert_set split: if_splits)
qed

lemma collected_raw: "collected records = Inr S \<Longrightarrow> S = set (rawOccurrences records)"
  by (auto simp: collected_def rawOccurrences_def Let_def dest!: collectLinks_subset)

lemma downloadLoop_dom:
  "dom (pathMap (downloadLoop L W hostname imagedir totalSteps links st)) \<subseteq> dom (pathMap st) \<union> set links"
proof (induction links arbitrary: st)
  case Nil
  then show ?case by simp
next
  case (Cons link links)
  show ?case
  proof (cases "downloadAndSaveImage L W (existing st) link hostname imagedir")
    case (fields r evs fs)
    then show ?thesis
    proof (cases r)
      case (Inl e)
      with fields Cons.IH[of "st\<lparr>existing := fs, trace := trace st @ evs\<rparr>"] show ?thesis
        by auto
    next
      case (Inr newPath)
      with fields Cons.IH[of "st\<lparr>pathMap := (pathMap st)(link \<mapsto> newPath),
               completed := Suc (completed st), existing := fs,
               trace := trace st @ evs @
                 [ProgressSet (Quot (Suc (completed st)) totalSteps),
                  updateStatus (downloadedStatus (Suc (completed st)) totalSteps link)]\<rparr>"]
      show ?thesis by auto
    qed
  qed
qed

lemma finalMap_dom:
  assumes "collected records = Inr S"
  shows "dom (finalMap (processRecords L W files order records hostname imagedir
           outputFileName selectedSeparator)) \<subseteq> set (order S)"
proof (cases "length records < 2")
  case True
  then show ?thesis by (simp add: processRecords_def)
next
  case False
  show ?thesis
  proof (cases "firstMissing (headerLoop 0 (hd records) Map.empty) requiredColumns")
    case (Some col)
    with False show ?thesis by (simp add: processRecords_def)
  next
    case None
    with False assms show ?thesis
      using downloadLoop_dom[of L W hostname imagedir "length (order S)" "order S"
          "\<lparr>pathMap = Map.empty, completed = 0, existing = files, trace = []\<rparr>"]
      by (simp add: processRecords_def collected_def Let_def)
  qed
qed

section \<open>Claims\<close>

text \<open>
  C10.  Every string \<^verbatim>\<open>extractImageLinks\<close> returns is non-empty and holds neither a
  double quote nor a single quote; so is every member of the reference set collected
  from a table, and so is every key of the reference-to-path map at the end of
  \<^verbatim>\<open>processRecords\<close>, whatever order the runtime visits the set in.
\<close>

theorem extracted_links_quote_free:
  "(\<forall>link \<in> set (extractImageLinks htmlContent). quoteFree link)
   \<and> (collected records = Inr imageLinkSet \<longrightarrow> (\<forall>link \<in> imageLinkSet. quoteFree link))
   \<and> (collected records = Inr imageLinkSet
        \<longrightarrow> rangeOver imageLinkSet (order imageLinkSet)
        \<longrightarrow> (\<forall>link \<in> dom (finalMap (processRecords L W files order records hostname
                             imagedir outputFileName selectedSeparator)).
              quoteFree link))"
proof (intro conjI impI ballI)
  fix link
  assume "link \<in> set (extractImageLinks htmlContent)"
  then show "quoteFree link" by (rule extractImageLinks_quoteFree)
next
  fix link
  assume c: "collected records = Inr imageLinkSet" and l: "link \<in> imageLinkSet"
  from collected_raw[OF c] l obtain row col
    where "link \<in> set (extractImageLinks (row ! col))"
    by (auto simp: rawOccurrences_def Let_def)
  then show "quoteFree link" by (rule extractImageLinks_quoteFree)
next
  fix link
  assume c: "collected records = Inr imageLinkSet"
    and r: "rangeOver imageLinkSet (order imageLinkSet)"
    and l: "link \<in> dom (finalMap (processRecords L W files order records hostname
                             imagedir outputFileName selectedSeparator))"
  from finalMap_dom[OF c] l r have "link \<in> imageLinkSet"
    unfolding rangeOver_def by blast
  with collected_raw[OF c] obtain row col
    where "link \<in> set (extractImageLinks (row ! col))"
    by (auto simp: rawOccurrences_def Let_def)
  then show "quoteFree link" by (rule extractImageLinks_quoteFree)
qed

theorem extracted_links_quote_free_witness:
  "extractImageLinks (imgWithSrc ''/a.jpg'') = [''/a.jpg'']
   \<and> collected sampleRecords = Inr {''/a.jpg'', ''http://x.com/b.png''}
   \<and> rangeOver {''/a.jpg'', ''http://x.com/b.png''}
         (sampleOrder {''/a.jpg'', ''http://x.com/b.png''})
   \<and> quoteFree ''/a.jpg'' \<and> quoteFree ''http://x.com/b.png''"
proof -
  have e: "extractImageLinks (imgWithSrc ''/a.jpg'') = [''/a.jpg'']"
    by code_simp
  have c: "collected sampleRecords = Inr {''/a.jpg'', ''http://x.com/b.png''}"
    by code_simp
  have r: "rangeOver {''/a.jpg'', ''http://x.com/b.png''}
             (sampleOrder {''/a.jpg'', ''http://x.com/b.png''})"
    by (simp add: rangeOver_def sampleOrder_def insert_commute)
  from extracted_links_quote_free[of "imgWithSrc ''/a.jpg''" sampleRecords
      "{''/a.jpg'', ''http://x.com/b.png''}" sampleOrder]
  show ?thesis using e c r by simp
qed

lemma hasPrefix_iff: "hasPrefix s p \<longleftrightarrow> (\<exists>t. s = p @ t)"
proof
  assume "hasPrefix s p"
  then have "s = p @ drop (length p) s"
    by (metis append_take_drop_id hasPrefix_def)
  then show "\<exists>t. s = p @ t" ..
next
  assume "\<exists>t. s = p @ t"
  then show "hasPrefix s p" by (auto simp: hasPrefix_def)
qed

lemma trimLeft_decomp:
  "\<exists>k. s = replicate k c @ trimLeft s [c] \<and> (trimLeft s [c] = [] \<or> hd (trimLeft s [c]) \<noteq> c)"
proof (induction s)
  case Nil
  then show ?case by simp
next
  case (Cons x xs)
  show ?case
  proof (cases "x = c")
    case True
    from Cons obtain k where k: "xs = replicate k c @ trimLeft xs [c]"
      and h: "trimLeft xs [c] = [] \<or> hd (trimLeft xs [c]) \<noteq> c" by blast
    have "x # xs = replicate (Suc k) c @ trimLeft (x # xs) [c]" using True k by simp
    with h True show ?thesis by (metis trimLeft.simps(2) list.set_intros(1))
  next
    case False
    then have "x # xs = replicate 0 c @ trimLeft (x # xs) [c]" by simp
    with False show ?thesis by (metis list.sel(1) trimLeft.simps(2) empty_iff empty_set set_ConsD)
  qed
qed

lemma trimRight_decomp:
  "\<exists>k. s = trimRight s [c] @ replicate k c \<and> (trimRight s [c] = [] \<or> last (trimRight s [c]) \<noteq> c)"
proof -
  from trimLeft_decomp[of "rev s" c] obtain k where k: "rev s = replicate k c @ trimLeft (rev s) [c]"
    and h: "trimLeft (rev s) [c] = [] \<or> hd (trimLeft (rev s) [c]) \<noteq> c" by blast
  from k have "s = rev (replicate k c @ trimLeft (rev s) [c])" by (metis rev_rev_ident)
  then have "s = trimRight s [c] @ replicate k c" by (simp add: trimRight_def)
  moreover from h have "trimRight s [c] = [] \<or> last (trimRight s [c]) \<noteq> c"
    by (auto simp: trimRight_def last_rev)
  ultimately show ?thesis by blast
qed

text \<open>
  C4.  The URL to fetch follows three rules, in this order.  (1) A reference that starts
  with two slashes gets \<^verbatim>\<open>https:\<close> in front.  (2) Otherwise, a reference that does not
  start with \<^verbatim>\<open>http\<close> is joined to the host name: the host name without its trailing
  slashes, one slash, the reference without its leading slashes.  (3) Otherwise the
  reference is left as it is.
\<close>

theorem resolveURL_rules:
  "(\<forall>t. r = ''//'' @ t \<longrightarrow> resolveURL r h = ''https:'' @ r)
   \<and> ((\<nexists>t. r = ''//'' @ t) \<and> (\<nexists>t. r = ''http'' @ t) \<longrightarrow>
        (\<exists>h' n r' k. h = h' @ replicate n (CHR ''/'') \<and> (h' = [] \<or> last h' \<noteq> CHR ''/'')
           \<and> r = replicate k (CHR ''/'') @ r' \<and> (r' = [] \<or> hd r' \<noteq> CHR ''/'')
           \<and> resolveURL r h = h' @ ''/'' @ r'))
   \<and> ((\<nexists>t. r = ''//'' @ t) \<and> (\<exists>t. r = ''http'' @ t) \<longrightarrow> resolveURL r h = r)"
proof (intro conjI impI allI)
  fix t assume "r = ''//'' @ t"
  then have "hasPrefix r ''//''" unfolding hasPrefix_iff by blast
  then show "resolveURL r h = ''https:'' @ r" by (simp add: resolveURL_def)
next
  assume a: "(\<nexists>t. r = ''//'' @ t) \<and> (\<nexists>t. r = ''http'' @ t)"
  then have "\<not> hasPrefix r ''//''" "\<not> hasPrefix r ''http''" unfolding hasPrefix_iff by blast+
  then have res: "resolveURL r h = trimRight h ''/'' @ ''/'' @ trimLeft r ''/''"
    by (simp add: resolveURL_def)
  from trimRight_decomp[of h "CHR ''/''"] obtain n where
    n: "h = trimRight h ''/'' @ replicate n (CHR ''/'')"
    and hn: "trimRight h ''/'' = [] \<or> last (trimRight h ''/'') \<noteq> CHR ''/''" by blast
  from trimLeft_decomp[of r "CHR ''/''"] obtain k where
    k: "r = replicate k (CHR ''/'') @ trimLeft r ''/''"
    and rk: "trimLeft r ''/'' = [] \<or> hd (trimLeft r ''/'') \<noteq> CHR ''/''" by blast
  from n hn k rk res
  show "\<exists>h' n r' k. h = h' @ replicate n (CHR ''/'') \<and> (h' = [] \<or> last h' \<noteq> CHR ''/'')
           \<and> r = replicate k (CHR ''/'') @ r' \<and> (r' = [] \<or> hd r' \<noteq> CHR ''/'')
           \<and> resolveURL r h = h' @ ''/'' @ r'" by blast
next
  assume a: "(\<nexists>t. r = ''//'' @ t) \<and> (\<exists>t. r = ''http'' @ t)"
  then have "\<not> hasPrefix r ''//''" "hasPrefix r ''http''" unfolding hasPrefix_iff by blast+
  then show "resolveURL r h = r" by (simp add: resolveURL_def)
qed

theorem resolveURL_rules_witness:
  "resolveURL ''//cdn.x/a.jpg'' ''https://site.ua'' = ''https://cdn.x/a.jpg''
   \<and> resolveURL ''http://x.com/b.png'' ''https://site.ua'' = ''http://x.com/b.png''
   \<and> (\<exists>h' n r' k. ''https://site.ua/'' = h' @ replicate n (CHR ''/'')
          \<and> ''/a.jpg'' = replicate k (CHR ''/'') @ r'
          \<and> resolveURL ''/a.jpg'' ''https://site.ua/'' = h' @ ''/'' @ r')
   \<and> resolveURL ''/a.jpg'' ''https://site.ua/'' = ''https://site.ua/a.jpg''"
proof -
  have 1: "resolveURL ''//cdn.x/a.jpg'' ''https://site.ua'' = ''https://cdn.x/a.jpg''"
    using resolveURL_rules[of "''//cdn.x/a.jpg''" "''https://site.ua''"] by simp
  have 3: "resolveURL ''http://x.com/b.png'' ''https://site.ua'' = ''http://x.com/b.png''"
    using resolveURL_rules[of "''http://x.com/b.png''" "''https://site.ua''"] by simp
  have "(\<nexists>t. ''/a.jpg'' = ''//'' @ t) \<and> (\<nexists>t. ''/a.jpg'' = ''http'' @ t)" by simp
  with resolveURL_rules[of "''/a.jpg''" "''https://site.ua/''"]
  have 2: "\<exists>h' n r' k. ''https://site.ua/'' = h' @ replicate n (CHR ''/'')
          \<and> ''/a.jpg'' = replicate k (CHR ''/'') @ r'
          \<and> resolveURL ''/a.jpg'' ''https://site.ua/'' = h' @ ''/'' @ r'"
    by blast
  have 4: "resolveURL ''/a.jpg'' ''https://site.ua/'' = ''https://site.ua/a.jpg''"
    by (simp add: resolveURL_def hasPrefix_def trimRight_def)
  from 1 2 3 4 show ?thesis by blast
qed

lemma headerLoop_None:
  "headerLoop i hs m col = None \<longleftrightarrow> (m col = None \<and> col \<notin> set hs)"
  by (induction hs arbitrary: i m) auto

lemma firstMissing_Some:
  "firstMissing m cols = Some col \<Longrightarrow> col \<in> set cols \<and> m col = None"
  by (induction cols) (auto split: option.splits)

lemma firstMissing_None:
  "firstMissing m cols = None \<longleftrightarrow> (\<forall>col \<in> set cols. m col \<noteq> None)"
  by (induction cols) (auto split: option.splits)

text \<open>
  C7.  When the table has fewer than two rows, or its header row lacks \<^verbatim>\<open>body_uk\<close> or
  \<^verbatim>\<open>body_ru\<close>, \<^verbatim>\<open>processRecords\<close> returns an error and has had no effect: no progress or
  status update, no directory or file created, no request sent, no output written; the
  rows are as they were and the map is empty.
\<close>

theorem schema_failure_has_no_effect:
  assumes "length records < 2 \<or> ''body_uk'' \<notin> set (hd records) \<or> ''body_ru'' \<notin> set (hd records)"
  shows "(returned (processRecords L W files order records hostname imagedir outputFileName selectedSeparator) = Some NoData
          \<or> returned (processRecords L W files order records hostname imagedir outputFileName selectedSeparator) = Some (MissingColumn ''body_uk'')
          \<or> returned (processRecords L W files order records hostname imagedir outputFileName selectedSeparator) = Some (MissingColumn ''body_ru''))
         \<and> effects (processRecords L W files order records hostname imagedir outputFileName selectedSeparator) = []
         \<and> recordsAfter (processRecords L W files order records hostname imagedir outputFileName selectedSeparator) = records
         \<and> finalMap (processRecords L W files order records hostname imagedir outputFileName selectedSeparator) = Map.empty"
proof (cases "length records < 2")
  case True
  then show ?thesis by (simp add: processRecords_def)
next
  case False
  with assms have "''body_uk'' \<notin> set (hd records) \<or> ''body_ru'' \<notin> set (hd records)" by simp
  then have "\<exists>col \<in> set requiredColumns. headerLoop 0 (hd records) Map.empty col = None"
    by (auto simp: requiredColumns_def headerLoop_None)
  then have "firstMissing (headerLoop 0 (hd records) Map.empty) requiredColumns \<noteq> None"
    unfolding firstMissing_None by blast
  then obtain col where col: "firstMissing (headerLoop 0 (hd records) Map.empty) requiredColumns = Some col"
    by blast
  from firstMissing_Some[OF col] have "col = ''body_uk'' \<or> col = ''body_ru''"
    by (auto simp: requiredColumns_def)
  with False col show ?thesis by (auto simp: processRecords_def)
qed

theorem schema_failure_has_no_effect_witness:
  "''body_ru'' \<notin> set (hd noRuRecords)
   \<and> returned (processRecords sampleLib sampleWorld {} sampleOrder noRuRecords
        ''https://site.ua'' ''/u/'' ''output.csv'' ''Semicolon (;)'') = Some (MissingColumn ''body_ru'')
   \<and> effects (processRecords sampleLib sampleWorld {} sampleOrder noRuRecords
        ''https://site.ua'' ''/u/'' ''output.csv'' ''Semicolon (;)'') = []
   \<and> recordsAfter (processRecords sampleLib sampleWorld {} sampleOrder noRuRecords
        ''https://site.ua'' ''/u/'' ''output.csv'' ''Semicolon (;)'') = noRuRecords"
proof -
  have h: "''body_ru'' \<notin> set (hd noRuRecords)" by (simp add: noRuRecords_def)
  have r: "returned (processRecords sampleLib sampleWorld {} sampleOrder noRuRecords
        ''https://site.ua'' ''/u/'' ''output.csv'' ''Semicolon (;)'') \<noteq> Some NoData"
    "returned (processRecords sampleLib sampleWorld {} sampleOrder noRuRecords
        ''https://site.ua'' ''/u/'' ''output.csv'' ''Semicolon (;)'') \<noteq> Some (MissingColumn ''body_uk'')"
    by (simp_all add: processRecords_def noRuRecords_def requiredColumns_def)
  from schema_failure_has_no_effect[of noRuRecords sampleLib sampleWorld "{}" sampleOrder
      "''https://site.ua''" "''/u/''" "''output.csv''" "''Semicolon (;)''"] h r
  show ?thesis by simp
qed

lemma count_list_distinct: "distinct xs \<Longrightarrow> x \<in> set xs \<Longrightarrow> count_list xs x = 1"
  by (induction xs) auto

text \<open>
  C9.  Whatever order the runtime visits the collected set in, the list of references to
  fetch holds exactly the strings harvested from the two columns of the data rows, each
  of them once: its length is the number of distinct harvested strings and at most the
  number of harvested occurrences.
\<close>

theorem reference_set_has_each_literal_once:
  assumes "collected records = Inr imageLinkSet"
    and "rangeOver imageLinkSet allImageLinks"
  shows "set allImageLinks = set (rawOccurrences records)
         \<and> (\<forall>link \<in> set (rawOccurrences records). count_list allImageLinks link = 1)
         \<and> length allImageLinks = card (set (rawOccurrences records))
         \<and> length allImageLinks \<le> length (rawOccurrences records)"
proof -
  from assms(2) have d: "distinct allImageLinks" and s: "set allImageLinks = imageLinkSet"
    by (simp_all add: rangeOver_def)
  from collected_raw[OF assms(1)] s have eq: "set allImageLinks = set (rawOccurrences records)"
    by simp
  have once: "\<forall>link \<in> set (rawOccurrences records). count_list allImageLinks link = 1"
    using d eq by (simp add: count_list_distinct)
  have len: "length allImageLinks = card (set (rawOccurrences records))"
    using d eq by (metis distinct_card)
  have "card (set (rawOccurrences records)) \<le> length (rawOccurrences records)"
    by (rule card_length)
  with eq once len show ?thesis by simp
qed

theorem reference_set_has_each_literal_once_witness:
  "collected citedTwiceRecords = Inr {''/a.jpg'', ''/b.png''}
   \<and> rangeOver {''/a.jpg'', ''/b.png''} [''/b.png'', ''/a.jpg'']
   \<and> rawOccurrences citedTwiceRecords
       = [''/a.jpg'', ''/a.jpg'', ''/b.png'', ''/b.png'', ''/a.jpg'']
   \<and> length [''/b.png'', ''/a.jpg''] = card (set (rawOccurrences citedTwiceRecords))
   \<and> length [''/b.png'', ''/a.jpg''] \<le> length (rawOccurrences citedTwiceRecords)"
proof -
  have c: "collected citedTwiceRecords = Inr {''/a.jpg'', ''/b.png''}"
    by code_simp
  have r: "rangeOver {''/a.jpg'', ''/b.png''} [''/b.png'', ''/a.jpg'']"
    by (simp add: rangeOver_def insert_commute)
  have o: "rawOccurrences citedTwiceRecords
             = [''/a.jpg'', ''/a.jpg'', ''/b.png'', ''/b.png'', ''/a.jpg'']"
    by code_simp
  note t = reference_set_has_each_literal_once[OF c r]
  from t have l: "length [''/b.png'', ''/a.jpg''] = card (set (rawOccurrences citedTwiceRecords))"
    by blast
  from t have m: "length [''/b.png'', ''/a.jpg''] \<le> length (rawOccurrences citedTwiceRecords)"
    by blast
  from c r o l m show ?thesis by blast
qed

section \<open>The rewriter\<close>








text \<open>
  C3.  The rewriter replaces the first occurrence of the reference text in the tag, which
  need not be the value of \<^verbatim>\<open>src\<close>: in a tag whose \<^verbatim>\<open>alt\<close> attribute holds the same text
  before \<^verbatim>\<open>src\<close>, the \<^verbatim>\<open>alt\<close> value is replaced and the \<^verbatim>\<open>src\<close> value stays.
\<close>

theorem rewrite_changes_alt_not_src:
  "replaceImageLinks altTag [''a.jpg'' \<mapsto> ''/u/cf3a--a.jpg'']
     = ''<img alt='' @ [dq] @ ''/u/cf3a--a.jpg'' @ [dq] @ '' src='' @ [dq] @ ''a.jpg'' @ [dq] @ ''>''"
  by code_simp

section \<open>Transliteration and the filename\<close>

text \<open>
  On ASCII bytes the runes are the bytes, so steps 2 to 4 of \<^verbatim>\<open>transliterate\<close> are the
  byte filter \<open>sanitize\<close>, whatever the Unicode tables say above ASCII.
\<close>

lemma decodeRunes_append_ascii:
  "list_all (\<lambda>b. b < 0x80) a \<Longrightarrow> decodeRunes (a @ b) = a @ decodeRunes b"
  by (induction a) (simp_all add: decodeRune_def)

lemma decodeRunes_ascii: "list_all (\<lambda>b. b < 0x80) a \<Longrightarrow> decodeRunes a = a"
  using decodeRunes_append_ascii[of a "[]"] by simp

lemma encodeRune_ascii: "r < 0x80 \<Longrightarrow> encodeRune r = [char_of r]"
  by (simp add: encodeRune_def Let_def)

lemma cyrillic_keys: "\<forall>k \<in> fst ` set cyrillicToLatin. 0x80 \<le> k"
  by (simp add: cyrillicToLatin_def)

lemma transliterateRune_ascii: "r < 0x80 \<Longrightarrow> transliterateRune r = [char_of r]"
proof -
  assume r: "r < 0x80"
  with cyrillic_keys have "r \<notin> fst ` set cyrillicToLatin" by fastforce
  then have "map_of cyrillicToLatin r = None" by (simp add: map_of_eq_None_iff)
  with r show ?thesis by (simp add: transliterateRune_def encodeRune_ascii)
qed

lemma scan_single:
  "scan [One c] s = map (\<lambda>x. if inCls c x then Match [[x]] else Lit x) s"
  by (induction s) simp_all

lemma replaceAllString_nonWord:
  "replaceAllString nonWordRe s [] = filter (\<lambda>c. c \<in> set wordOrHyphen) s"
  by (induction s) (simp_all add: replaceAllString_def nonWordRe_def scan_single)

lemma word_enum:
  "list_all (\<lambda>c. (of_char c :: nat) < 0x80
       \<and> (((of_char c :: nat) = 0x2D \<or> isUpperAscii (of_char c) \<or> isLowerAscii (of_char c)
            \<or> isDigitAscii (of_char c)) = (c \<in> set alnumHyphen))) wordOrHyphen"
  by code_simp

lemma alnum_enum:
  "list_all (\<lambda>c. c \<in> set wordOrHyphen \<and> (of_char c :: nat) < 0x80
       \<and> lowerChar c \<in> set lowerAlnumHyphen) alnumHyphen"
  by code_simp

lemma lower_enum:
  "list_all (\<lambda>c. c \<noteq> CHR '' '' \<and> c \<in> set alnumHyphen \<and> lowerChar c = c) lowerAlnumHyphen"
  by code_simp

lemma wordOrHyphen_ascii: "c \<in> set wordOrHyphen \<Longrightarrow> (of_char c :: nat) < 0x80"
  using word_enum unfolding list_all_iff by blast

lemma keep_word:
  assumes "c \<in> set wordOrHyphen"
  shows "((of_char c :: nat) = 0x2D \<or> isLetter L (of_char c) \<or> isDigit L (of_char c))
           = (c \<in> set alnumHyphen)"
proof -
  from assms word_enum have a: "(of_char c :: nat) < 0x80"
    and k: "((of_char c :: nat) = 0x2D \<or> isUpperAscii (of_char c) \<or> isLowerAscii (of_char c)
            \<or> isDigitAscii (of_char c)) = (c \<in> set alnumHyphen)"
    unfolding list_all_iff by blast+
  from a have "isLetter L (of_char c) = (isUpperAscii (of_char c) \<or> isLowerAscii (of_char c))"
    and "isDigit L (of_char c) = isDigitAscii (of_char c)"
    by (simp_all add: isLetter_def isDigit_def)
  with k show ?thesis by blast
qed

lemma alnumHyphen_word: "c \<in> set alnumHyphen \<Longrightarrow> c \<in> set wordOrHyphen"
  using alnum_enum unfolding list_all_iff by blast

lemma alnumHyphen_ascii: "c \<in> set alnumHyphen \<Longrightarrow> (of_char c :: nat) < 0x80"
  using alnum_enum unfolding list_all_iff by blast

lemma concat_encode_ascii:
  "list_all (\<lambda>c. (of_char c :: nat) < 0x80) s \<Longrightarrow> concat (map encodeRune (map of_char s)) = s"
  by (induction s) (simp_all add: encodeRune_ascii)

lemma keepRunes_ascii:
  assumes "list_all (\<lambda>c. (of_char c :: nat) < 0x80) s"
  shows "keepRunes keep s = filter (\<lambda>c. keep (of_char c)) s"
proof -
  from assms have "list_all (\<lambda>b. b < 0x80) (map of_char s :: nat list)"
    by (simp add: list_all_iff)
  then have r: "runesOf s = map of_char s" by (simp add: runesOf_def decodeRunes_ascii)
  have f: "filter keep (map of_char s) = map of_char (filter (\<lambda>c. keep (of_char c)) s)"
    by (simp add: filter_map comp_def)
  from assms have "list_all (\<lambda>c. (of_char c :: nat) < 0x80) (filter (\<lambda>c. keep (of_char c)) s)"
    by (simp add: list_all_iff)
  then have "concat (map encodeRune (map of_char (filter (\<lambda>c. keep (of_char c)) s)))
               = filter (\<lambda>c. keep (of_char c)) s"
    by (rule concat_encode_ascii)
  then show ?thesis by (simp only: keepRunes_def r f)
qed

lemma toLower_ascii:
  "list_all (\<lambda>c. (of_char c :: nat) < 0x80) s \<Longrightarrow> toLower L s = map lowerChar s"
  by (simp add: toLower_def lowerChar_def)

lemma transliterate_sanitize:
  "transliterate L s = sanitize (concat (map transliterateRune (runesOf s)))"
proof -
  define spaced where
    "spaced = map (\<lambda>c. if c = CHR '' '' then CHR ''-'' else c) (concat (map transliterateRune (runesOf s)))"
  define stripped where "stripped = filter (\<lambda>c. c \<in> set wordOrHyphen) spaced"
  have sa: "list_all (\<lambda>c. (of_char c :: nat) < 0x80) stripped"
    by (simp add: stripped_def list_all_iff wordOrHyphen_ascii)
  have k: "keepRunes (\<lambda>r. r = 0x2D \<or> isLetter L r \<or> isDigit L r) stripped
             = filter (\<lambda>c. c \<in> set alnumHyphen) spaced"
  proof -
    have "keepRunes (\<lambda>r. r = 0x2D \<or> isLetter L r \<or> isDigit L r) stripped
            = filter (\<lambda>c. (of_char c :: nat) = 0x2D \<or> isLetter L (of_char c) \<or> isDigit L (of_char c)) stripped"
      using sa by (rule keepRunes_ascii)
    also have "\<dots> = filter (\<lambda>c. c \<in> set alnumHyphen) stripped"
      by (rule filter_cong[OF refl]) (simp add: stripped_def keep_word)
    also have "\<dots> = filter (\<lambda>c. c \<in> set alnumHyphen) spaced"
      unfolding stripped_def filter_filter
      by (rule filter_cong[OF refl]) (auto dest: alnumHyphen_word)
    finally show ?thesis .
  qed
  have ka: "list_all (\<lambda>c. (of_char c :: nat) < 0x80) (filter (\<lambda>c. c \<in> set alnumHyphen) spaced)"
    by (simp add: list_all_iff alnumHyphen_ascii)
  have "transliterate L s = toLower L (keepRunes (\<lambda>r. r = 0x2D \<or> isLetter L r \<or> isDigit L r) stripped)"
    by (simp add: transliterate_def Let_def stripped_def spaced_def replaceAllString_nonWord)
  also have "\<dots> = map lowerChar (filter (\<lambda>c. c \<in> set alnumHyphen) spaced)"
    unfolding k using ka by (rule toLower_ascii)
  finally show ?thesis by (simp add: sanitize_def spaced_def)
qed



lemma sanitize_append: "sanitize (a @ b) = sanitize a @ sanitize b"
  by (simp add: sanitize_def)

lemma lowerAlnumHyphen_fixed:
  "c \<in> set lowerAlnumHyphen \<Longrightarrow> c \<noteq> CHR '' '' \<and> c \<in> set alnumHyphen \<and> lowerChar c = c"
  using lower_enum unfolding list_all_iff by blast

lemma sanitize_id: "set h \<subseteq> set lowerAlnumHyphen \<Longrightarrow> sanitize h = h"
proof (induction h)
  case Nil
  then show ?case by (simp add: sanitize_def)
next
  case (Cons c h)
  then have "sanitize h = h" by simp
  moreover from Cons.prems lowerAlnumHyphen_fixed[of c]
  have "sanitize [c] = [c]" by (simp add: sanitize_def)
  ultimately show ?case using sanitize_append[of "[c]" h] by simp
qed

text \<open>
  The hash is four lower-case hexadecimal digits and passes through \<^verbatim>\<open>transliterate\<close>
  unchanged; the extension starts with a dot.
\<close>

lemma built_ascii:
  "list_all (\<lambda>c. (of_char c :: nat) < 0x80) a \<Longrightarrow>
     concat (map transliterateRune (runesOf (a @ b))) = a @ concat (map transliterateRune (runesOf b))"
proof -
  assume a: "list_all (\<lambda>c. (of_char c :: nat) < 0x80) a"
  then have "list_all (\<lambda>b. b < 0x80) (map of_char a :: nat list)" by (simp add: list_all_iff)
  then have r: "runesOf (a @ b) = map of_char a @ runesOf b"
    by (simp add: runesOf_def decodeRunes_append_ascii)
  from a have "concat (map transliterateRune (map of_char a)) = a"
    by (induction a) (simp_all add: transliterateRune_ascii)
  with r show ?thesis by simp
qed

lemma transliterate_ascii_prefix:
  assumes "set a \<subseteq> set lowerAlnumHyphen"
  shows "transliterate L (a @ b) = a @ transliterate L b"
proof -
  from assms have "list_all (\<lambda>c. (of_char c :: nat) < 0x80) a"
    unfolding list_all_iff using lowerAlnumHyphen_fixed alnumHyphen_ascii by blast
  then show ?thesis
    by (simp add: transliterate_sanitize built_ascii sanitize_append sanitize_id[OF assms])
qed


lemma length_be32: "length (be32 w) = 4"
  by (simp add: be32_def)

lemma be32_bytes: "b \<in> set (be32 w) \<Longrightarrow> b < 256"
  by (auto simp: be32_def)

lemma digestBytes_shape: "length (digestBytes st) = 20 \<and> (\<forall>b \<in> set (digestBytes st). b < 256)"
  by (cases st) (auto simp: length_be32 dest: be32_bytes)

lemma hexDigit_lower: "n < 16 \<Longrightarrow> hexDigit n \<in> set ''0123456789abcdef''"
  unfolding hexDigit_def by (rule nth_mem) simp

lemma hexEncode_shape:
  "(\<forall>b \<in> set bs. b < 256) \<Longrightarrow>
     length (hexEncode bs) = 2 * length bs \<and> set (hexEncode bs) \<subseteq> set ''0123456789abcdef''"
proof (induction bs)
  case Nil
  then show ?case by (simp add: hexEncode_def)
next
  case (Cons b bs)
  then have b: "b < 256" by simp
  then have "b div 16 < 16" "b mod 16 < 16" by simp_all
  then have "hexDigit (b div 16) \<in> set ''0123456789abcdef''"
    "hexDigit (b mod 16) \<in> set ''0123456789abcdef''" by (simp_all only: hexDigit_lower)
  moreover have "hexEncode (b # bs) = [hexDigit (b div 16), hexDigit (b mod 16)] @ hexEncode bs"
    by (simp add: hexEncode_def)
  ultimately show ?case using Cons by simp
qed

lemma hashOf_shape: "length (hashOf u) = 4 \<and> set (hashOf u) \<subseteq> set ''0123456789abcdef''"
proof -
  define bs where "bs = sha1Sum u"
  have "length bs = 20" and bb: "\<forall>b \<in> set bs. b < 256"
    unfolding bs_def sha1Sum_def using digestBytes_shape by blast+
  with hexEncode_shape[OF bb]
  have l: "length (hexEncode bs) = 40" and c: "set (hexEncode bs) \<subseteq> set ''0123456789abcdef''"
    by simp_all
  have "set (take 4 (hexEncode bs)) \<subseteq> set (hexEncode bs)" by (rule set_take_subset)
  from this c have "set (take 4 (hexEncode bs)) \<subseteq> set ''0123456789abcdef''" by (rule subset_trans)
  moreover from l have "length (take 4 (hexEncode bs)) = 4" by simp
  ultimately show ?thesis unfolding hashOf_def bs_def by blast
qed

lemma hex_lowerAlnumHyphen: "set ''0123456789abcdef'' \<subseteq> set lowerAlnumHyphen"
  by code_simp

lemma hyphen_lowerAlnumHyphen: "CHR ''-'' \<in> set lowerAlnumHyphen"
  by code_simp

lemma dot_lowerAlnumHyphen: "CHR ''.'' \<notin> set lowerAlnumHyphen"
  by code_simp

lemma hash_hyphen_chars: "set (hashOf u @ ''-'') \<subseteq> set lowerAlnumHyphen"
proof -
  from hashOf_shape[of u] hex_lowerAlnumHyphen have "set (hashOf u) \<subseteq> set lowerAlnumHyphen"
    by blast
  with hyphen_lowerAlnumHyphen show ?thesis by simp
qed




lemma matches_body_ext:
  assumes "b \<noteq> []" and "set b \<subseteq> set lowerAlnumHyphen"
  shows "matchesFilenamePattern (b @ CHR ''.'' # e) \<longleftrightarrow> e \<noteq> [] \<and> set e \<subseteq> set lowerAlnum"
proof -
  note nd = dot_lowerAlnumHyphen
  from assms(2) have "takeWhile (\<lambda>c. c \<in> set lowerAlnumHyphen) (b @ CHR ''.'' # e)
      = b @ takeWhile (\<lambda>c. c \<in> set lowerAlnumHyphen) (CHR ''.'' # e)"
    by (intro takeWhile_append2) auto
  with nd have "takeWhile (\<lambda>c. c \<in> set lowerAlnumHyphen) (b @ CHR ''.'' # e) = b" by simp
  with assms(1) show ?thesis
    by (auto simp: matchesFilenamePattern_def Let_def list_all_iff)
qed

lemma matchesFilenamePattern_iff:
  "matchesFilenamePattern s \<longleftrightarrow>
     (\<exists>body ext. s = body @ ''.'' @ ext \<and> body \<noteq> [] \<and> set body \<subseteq> set lowerAlnumHyphen
        \<and> ext \<noteq> [] \<and> set ext \<subseteq> set lowerAlnum)"
proof
  assume m: "matchesFilenamePattern s"
  define body where "body = takeWhile (\<lambda>c. c \<in> set lowerAlnumHyphen) s"
  have s: "s = body @ drop (length body) s"
    by (metis append_take_drop_id body_def takeWhile_eq_take)
  from m obtain ext where "body \<noteq> []" "drop (length body) s = CHR ''.'' # ext" "ext \<noteq> []"
    "set ext \<subseteq> set lowerAlnum"
    by (auto simp: matchesFilenamePattern_def Let_def body_def list_all_iff split: list.splits)
  moreover have "set body \<subseteq> set lowerAlnumHyphen"
    unfolding body_def by (auto dest: set_takeWhileD)
  ultimately show "\<exists>body ext. s = body @ ''.'' @ ext \<and> body \<noteq> [] \<and> set body \<subseteq> set lowerAlnumHyphen
        \<and> ext \<noteq> [] \<and> set ext \<subseteq> set lowerAlnum"
    using s by (metis append_Cons append_Nil)
next
  assume "\<exists>body ext. s = body @ ''.'' @ ext \<and> body \<noteq> [] \<and> set body \<subseteq> set lowerAlnumHyphen
        \<and> ext \<noteq> [] \<and> set ext \<subseteq> set lowerAlnum"
  then obtain body ext where "s = body @ CHR ''.'' # ext" "body \<noteq> []"
    "set body \<subseteq> set lowerAlnumHyphen" "ext \<noteq> []" "set ext \<subseteq> set lowerAlnum" by auto
  then show "matchesFilenamePattern s" by (simp add: matches_body_ext)
qed




lemma transliterate_clean:
  assumes "set t \<subseteq> set lowerAlnumHyphen"
  shows "transliterate L t = t"
proof -
  have "transliterate L [] = []"
    by (simp add: transliterate_sanitize runesOf_def sanitize_def)
  with transliterate_ascii_prefix[OF assms, of L "[]"] show ?thesis by simp
qed

lemma stem_of_plain_path:
  assumes "uniquePartOf (splitOn (CHR ''/'') path) @ ''-''
      @ trimSuffix (filenameWithExtOf path) (pathExt (filenameWithExtOf path)) = t"
    and "transliterate L t = t'"
  shows "stemOf L u path = hashOf u @ ''-'' @ t'"
proof -
  have "stemOf L u path = transliterate L ((hashOf u @ ''-'') @ t)"
    using assms(1) by (simp add: stemOf_def Let_def)
  also have "\<dots> = (hashOf u @ ''-'') @ transliterate L t"
    using hash_hyphen_chars by (rule transliterate_ascii_prefix)
  finally show ?thesis using assms(2) by simp
qed





section \<open>The run\<close>





lemma rewriteLoop_events:
  "snd (rewriteLoop iu ir m totalSteps rows n)
     = map (\<lambda>j. ProgressSet (Quot (n + j + 1) totalSteps)) [0 ..< length rows]"
proof (induction rows arbitrary: n)
  case Nil
  then show ?case by simp
next
  case (Cons row rows)
  have "[0 ..< length (row # rows)] = 0 # map Suc [0 ..< length rows]"
    by (simp add: upt_conv_Cons map_Suc_upt del: upt_Suc)
  with Cons show ?case by (simp add: Let_def comp_def)
qed

lemma header_ok:
  "''body_uk'' \<in> set hs \<Longrightarrow> ''body_ru'' \<in> set hs \<Longrightarrow>
     firstMissing (headerLoop 0 hs Map.empty) requiredColumns = None"
proof -
  assume "''body_uk'' \<in> set hs" "''body_ru'' \<in> set hs"
  then have "\<forall>col \<in> set requiredColumns. headerLoop 0 hs Map.empty col \<noteq> None"
    by (simp add: requiredColumns_def headerLoop_None)
  then show ?thesis by (simp only: firstMissing_None)
qed

lemma processRecords_reached:
  assumes "2 \<le> length records" and "''body_uk'' \<in> set (hd records)"
    and "''body_ru'' \<in> set (hd records)" and "collected records = Inr S"
  shows "processRecords L W files order records hostname imagedir outputFileName selectedSeparator =
     (let iu = columnOf (headerLoop 0 (hd records) Map.empty) ''body_uk'';
          ir = columnOf (headerLoop 0 (hd records) Map.empty) ''body_ru'';
          st = downloadLoop L W hostname imagedir (length (order S)) (order S)
                 \<lparr>pathMap = Map.empty, completed = 0, existing = files, trace = []\<rparr>;
          rewritten = rewriteLoop iu ir (pathMap st) (length (order S)) (tl records) (completed st);
          written = writeCSV W (hd records # fst rewritten) outputFileName selectedSeparator
      in \<lparr>returned = fst written, recordsAfter = hd records # fst rewritten,
          finalMap = pathMap st,
          effects = [ProgressSet Zero, updateStatus ''Downloading images...'']
                    @ trace st @ snd rewritten
                    @ [updateStatus ''Writing to output file...''] @ snd written\<rparr>)"
proof -
  from assms(1) have l: "\<not> length records < 2" by simp
  from header_ok[OF assms(2,3)]
  have m: "firstMissing (headerLoop 0 (hd records) Map.empty) requiredColumns = None" .
  from assms(4) have c: "collectLinks (columnOf (headerLoop 0 (hd records) Map.empty) ''body_uk'')
      (columnOf (headerLoop 0 (hd records) Map.empty) ''body_ru'') (tl records) {} = Inr S"
    by (simp add: collected_def Let_def)
  show ?thesis
    unfolding processRecords_def Let_def using l m c by simp
qed


lemma writeCSV_ok:
  "outputCreateOk W out \<Longrightarrow> outputWriteOk W out \<Longrightarrow>
     writeCSV W recs out sep = (None, [OutputCreate out, OutputWrite out (separatorOf sep) recs])"
  by (simp add: writeCSV_def)


section \<open>SHA-1 on given messages\<close>

lemma upt_0_numeral: "[0 ..< numeral n] = 0 # [Suc 0 ..< numeral n]"
  by (subst upt_rec) simp

lemma upt_Suc_0_numeral:
  "[Suc 0 ..< numeral n] = (if Suc 0 < numeral n then Suc 0 # [2 ..< numeral n] else [])"
  by (subst upt_rec) (simp only: numeral_2_eq_2)

lemmas upt_eval = upt_0_numeral upt_Suc_0_numeral upt_rec_numeral

lemma replicate_numeral_Cons: "replicate (numeral k) x = x # replicate (pred_numeral k) x"
  by (simp add: numeral_eq_Suc)

lemma norm32_id: "norm32 x = x"
  by (simp add: norm32_def)

lemma sha1Extend_norm:
  "sha1Extend t w =
     w @ [norm32 (rotl32 1 (w ! (t - 3) XOR w ! (t - 8) XOR w ! (t - 14) XOR w ! (t - 16)))]"
  by (simp add: sha1Extend_def norm32_id)

lemma sha1Round_norm:
  "sha1Round w t (a, b, c, d, e) =
     (norm32 (rotl32 5 a + sha1F t b c d + e + sha1K t + w ! t), a, norm32 (rotl32 30 b), c, d)"
  by (simp add: norm32_id)

text \<open>A message of at most 55 bytes is padded to one block.\<close>

lemma sha1_one_block:
  assumes "sha1Pad (map of_char msg) = block" and "length block = 64"
    and "sha1Schedule block = W" and "fold (sha1Round W) [0 ..< 80] sha1Init = st"
  shows "sha1Sum msg = digestBytes (addState sha1Init st)"
proof -
  from assms(2) have "blocksOf block = [block]"
    by (simp add: blocksOf_def)
  with assms show ?thesis by (simp add: sha1Sum_def sha1Block_def)
qed

text \<open>The first test vector of FIPS 180: the digest of \<^verbatim>\<open>abc\<close>.\<close>

lemma sha1_abc: "hexEncode (sha1Sum ''abc'') = ''a9993e364706816aba3e25717850c26c9cd0d89d''"
proof -
  define block :: "nat list" where
    "block = [97, 98, 99, 128, 0, 0, 0, 0, 0, 0, 0, 0, 0, 0, 0, 0,
         0, 0, 0, 0, 0, 0, 0, 0, 0, 0, 0, 0, 0, 0, 0, 0,
         0, 0, 0, 0, 0, 0, 0, 0, 0, 0, 0, 0, 0, 0, 0, 0,
         0, 0, 0, 0, 0, 0, 0, 0, 0, 0, 0, 0, 0, 0, 0, 24]"
  define W :: "32 word list" where
    "W = [0x61626380, 0x00000000, 0x00000000, 0x00000000, 0x00000000, 0x00000000,
         0x00000000, 0x00000000, 0x00000000, 0x00000000, 0x00000000, 0x00000000,
         0x00000000, 0x00000000, 0x00000000, 0x00000018, 0xC2C4C700, 0x00000000,
         0x00000030, 0x85898E01, 0x00000000, 0x00000060, 0x0B131C03, 0x00000030,
         0x85898EC1, 0x16263806, 0x00000000, 0x00000180, 0x2C4C700C, 0x000000F0,
         0x93AFB507, 0x5898E048, 0x8E9A9202, 0x00000600, 0xB131C0F0, 0x16263BC6,
         0x4EBED41E, 0x626380A1, 0x16263806, 0x000018C0, 0xD2E138C4, 0x00000F00,
         0x3AFB5079, 0x898E04E5, 0xE2BA3C2B, 0x000060C0, 0x053A37CD, 0x74458547,
         0xDA9415ED, 0x26380A16, 0x626383A1, 0x4EBF54DE, 0x3835B44B, 0x0000F600,
         0x1E84C7A3, 0x98E04D98, 0x651D16A0, 0x62658CA1, 0x458544D6, 0x44584CB7,
         0x7BA06619, 0x6380AEA2, 0x0AE55269, 0x627B49A1, 0x7CD45C9D, 0x000F0000,
         0xFB50753A, 0xEC6765E8, 0xBA3C2BE2, 0x0060C000, 0x3A37CD05, 0x458546F4,
         0xB8599DD6, 0x380A1A26, 0x01E02203, 0xE7CC3456, 0xE6E60B69, 0x00F60A00,
         0x5795EF4F, 0x822E0879]"
  have p: "sha1Pad (map of_char ''abc'') = block"
    unfolding block_def by (simp add: sha1Pad_def be64_def upt_eval replicate_numeral_Cons)
  have l: "length block = 64"
    unfolding block_def by simp
  have s: "sha1Schedule block = W"
    unfolding block_def W_def
    by (simp add: sha1Schedule_def wordAt_def upt_eval sha1Extend_norm rotl32_def norm32_def)
  have r: "fold (sha1Round W) [0 ..< 80] sha1Init
      = (0x42541B35, 0x5738D5E1, 0x21834873, 0x681E6DF6, 0xD8FDF6AD)"
    unfolding W_def
    by (simp add: upt_eval sha1Round_norm rotl32_def sha1Init_def sha1F_def sha1K_def norm32_def
        del: sha1Round.simps)
  have "sha1Sum ''abc''
      = digestBytes (addState sha1Init
          (0x42541B35, 0x5738D5E1, 0x21834873, 0x681E6DF6, 0xD8FDF6AD))"
    by (rule sha1_one_block[OF p l s r])
  then show ?thesis
    by (simp add: sha1Init_def hexEncode_def hexDigit_def be32_def upt_eval)
qed





section \<open>The sample runs\<close>

lemma rewriteTag_alt:
  "rewriteTag m t =
     (case originalLinkOf t of
        Some l \<Rightarrow> (case m l of Some p \<Rightarrow> replaceFirst t l p | None \<Rightarrow> t)
      | None \<Rightarrow> t)"
  by (simp add: rewriteTag_def originalLinkOf_def Let_def split: option.splits)

lemma single_tag:
  assumes "(case scan tagRe X of [Match ps] \<Rightarrow> concat ps = X | _ \<Rightarrow> False)"
  shows "replaceImageLinks X m = rewriteTag m X"
proof -
  from assms obtain ps where "scan tagRe X = [Match ps]" and "concat ps = X"
    by (cases "scan tagRe X" rule: list.exhaust; cases "hd (scan tagRe X)";
        cases "tl (scan tagRe X)") auto
  then show ?thesis by (simp add: replaceImageLinks_def)
qed

lemma rewrite_single_tag:
  assumes "(case scan tagRe X of [Match ps] \<Rightarrow> concat ps = X | _ \<Rightarrow> False)"
    and "originalLinkOf X = Some l"
    and "\<And>p. replaceFirst X l p = Y p"
  shows "replaceImageLinks X m = (case m l of Some p \<Rightarrow> Y p | None \<Rightarrow> X)"
  using single_tag[OF assms(1), of m] assms(2,3)
  by (simp add: rewriteTag_alt split: option.splits)

lemma rewrite_a:
  "replaceImageLinks (imgWithSrc ''/a.jpg'') m
     = (case m ''/a.jpg'' of Some p \<Rightarrow> imgWithSrc p | None \<Rightarrow> imgWithSrc ''/a.jpg'')"
proof (rule rewrite_single_tag)
  show "case scan tagRe (imgWithSrc ''/a.jpg'') of [Match ps] \<Rightarrow> concat ps = imgWithSrc ''/a.jpg''
     | _ \<Rightarrow> False"
    by code_simp
  show "originalLinkOf (imgWithSrc ''/a.jpg'') = Some ''/a.jpg''"
    by code_simp
  show "\<And>p. replaceFirst (imgWithSrc ''/a.jpg'') ''/a.jpg'' p = imgWithSrc p"
    by (simp add: imgWithSrc_def hasPrefix_def)
qed

lemma rewrite_b:
  "replaceImageLinks (imgWithSrc ''http://x.com/b.png'') m
     = (case m ''http://x.com/b.png'' of Some p \<Rightarrow> imgWithSrc p
        | None \<Rightarrow> imgWithSrc ''http://x.com/b.png'')"
proof (rule rewrite_single_tag)
  show "case scan tagRe (imgWithSrc ''http://x.com/b.png'') of
       [Match ps] \<Rightarrow> concat ps = imgWithSrc ''http://x.com/b.png'' | _ \<Rightarrow> False"
    by code_simp
  show "originalLinkOf (imgWithSrc ''http://x.com/b.png'') = Some ''http://x.com/b.png''"
    by code_simp
  show "\<And>p. replaceFirst (imgWithSrc ''http://x.com/b.png'') ''http://x.com/b.png'' p = imgWithSrc p"
    by (simp add: imgWithSrc_def hasPrefix_def)
qed


lemma rewrite_empty: "replaceImageLinks [] m = []"
  by (simp add: replaceImageLinks_def)

lemma download_ok:
  assumes "urlParsePath L (resolveURL link hostname) = Some path"
    and "mkdirAllOk W (pathJoin L ''files'' imagedir)"
    and "httpDo W (resolveURL link hostname) = Response 200 n body True"
    and "createOk W (pathJoin L (pathJoin L ''files'' imagedir)
           (synthFilename L (resolveURL link hostname) path))"
    and "n \<le> 0 \<or> \<not> fstatOk W (pathJoin L (pathJoin L ''files'' imagedir)
           (synthFilename L (resolveURL link hostname) path)) \<or> int (length body) = n"
  shows "downloadAndSaveImage L W files link hostname imagedir =
     (Inr (imagedir @ synthFilename L (resolveURL link hostname) path),
      (if pathJoin L (pathJoin L ''files'' imagedir)
            (synthFilename L (resolveURL link hostname) path) \<in> files
       then [MkdirAll (pathJoin L ''files'' imagedir)]
       else [MkdirAll (pathJoin L ''files'' imagedir), HttpGet (resolveURL link hostname),
             FileCreate (pathJoin L (pathJoin L ''files'' imagedir)
               (synthFilename L (resolveURL link hostname) path))]),
      insert (pathJoin L (pathJoin L ''files'' imagedir)
               (synthFilename L (resolveURL link hostname) path)) files)"
  using assms by (auto simp: downloadAndSaveImage_def Let_def insert_absorb)


lemma resolve_a: "resolveURL ''/a.jpg'' ''https://site.ua'' = ''https://site.ua/a.jpg''"
  by code_simp

lemma resolve_b: "resolveURL ''http://x.com/b.png'' ''https://site.ua'' = ''http://x.com/b.png''"
  by code_simp


lemma hyphen_clean: "transliterate L ''-a'' = ''-a'' \<and> transliterate L ''-b'' = ''-b''
    \<and> transliterate L ''-c'' = ''-c''"
proof -
  have "set ''-a'' \<subseteq> set lowerAlnumHyphen" "set ''-b'' \<subseteq> set lowerAlnumHyphen"
    "set ''-c'' \<subseteq> set lowerAlnumHyphen" by code_simp+
  then show ?thesis by (simp only: transliterate_clean)
qed

lemma filename_a:
  "synthFilename L u ''/a.jpg'' = hashOf u @ ''--a.jpg''"
proof -
  have e: "extensionOf ''/a.jpg'' = ''.jpg''" by code_simp
  have t: "uniquePartOf (splitOn (CHR ''/'') ''/a.jpg'') @ ''-''
      @ trimSuffix (filenameWithExtOf ''/a.jpg'') (pathExt (filenameWithExtOf ''/a.jpg'')) = ''-a''"
    by code_simp
  from hyphen_clean have s: "transliterate L ''-a'' = ''-a''" by blast
  show ?thesis using stem_of_plain_path[OF t s] e by (simp add: synthFilename_def)
qed

lemma filename_b:
  "synthFilename L u ''/b.png'' = hashOf u @ ''--b.png''"
proof -
  have e: "extensionOf ''/b.png'' = ''.png''" by code_simp
  have t: "uniquePartOf (splitOn (CHR ''/'') ''/b.png'') @ ''-''
      @ trimSuffix (filenameWithExtOf ''/b.png'') (pathExt (filenameWithExtOf ''/b.png'')) = ''-b''"
    by code_simp
  from hyphen_clean have s: "transliterate L ''-b'' = ''-b''" by blast
  show ?thesis using stem_of_plain_path[OF t s] e by (simp add: synthFilename_def)
qed


lemma hash_suffix_ne:
  "x \<noteq> y \<Longrightarrow> hashOf u @ x \<noteq> hashOf v @ y"
proof -
  assume "x \<noteq> y"
  have "length (hashOf u) = length (hashOf v)" using hashOf_shape by simp
  then have "(hashOf u @ x = hashOf v @ y) = (hashOf u = hashOf v \<and> x = y)"
    by simp
  with \<open>x \<noteq> y\<close> show ?thesis by simp
qed

lemma sample_download_a:
  "downloadAndSaveImage sampleLib sampleWorld files ''/a.jpg'' ''https://site.ua'' ''/u/'' =
     (Inr (''/u/'' @ hashOf ''https://site.ua/a.jpg'' @ ''--a.jpg''),
      (if ''files/u/'' @ hashOf ''https://site.ua/a.jpg'' @ ''--a.jpg'' \<in> files
       then [MkdirAll ''files/u'']
       else [MkdirAll ''files/u'', HttpGet ''https://site.ua/a.jpg'',
             FileCreate (''files/u/'' @ hashOf ''https://site.ua/a.jpg'' @ ''--a.jpg'')]),
      insert (''files/u/'' @ hashOf ''https://site.ua/a.jpg'' @ ''--a.jpg'') files)"
proof -
  have p: "urlParsePath sampleLib (resolveURL ''/a.jpg'' ''https://site.ua'') = Some ''/a.jpg''"
    by (simp add: resolve_a sampleLib_def)
  have j: "pathJoin sampleLib ''files'' ''/u/'' = ''files/u''"
    "\<And>f. pathJoin sampleLib ''files/u'' f = ''files/u/'' @ f"
    by (simp_all add: sampleLib_def)
  show ?thesis
    using download_ok[OF p, of sampleWorld "''/u/''" 3 "''abc''" files]
    by (simp add: sampleWorld_def j resolve_a filename_a)
qed

lemma sample_download_b:
  "downloadAndSaveImage sampleLib sampleWorld files ''http://x.com/b.png'' ''https://site.ua'' ''/u/'' =
     (Inr (''/u/'' @ hashOf ''http://x.com/b.png'' @ ''--b.png''),
      (if ''files/u/'' @ hashOf ''http://x.com/b.png'' @ ''--b.png'' \<in> files
       then [MkdirAll ''files/u'']
       else [MkdirAll ''files/u'', HttpGet ''http://x.com/b.png'',
             FileCreate (''files/u/'' @ hashOf ''http://x.com/b.png'' @ ''--b.png'')]),
      insert (''files/u/'' @ hashOf ''http://x.com/b.png'' @ ''--b.png'') files)"
proof -
  have p: "urlParsePath sampleLib (resolveURL ''http://x.com/b.png'' ''https://site.ua'') = Some ''/b.png''"
    by (simp add: resolve_b sampleLib_def)
  have j: "pathJoin sampleLib ''files'' ''/u/'' = ''files/u''"
    "\<And>f. pathJoin sampleLib ''files/u'' f = ''files/u/'' @ f"
    by (simp_all add: sampleLib_def)
  show ?thesis
    using download_ok[OF p, of sampleWorld "''/u/''" 3 "''abc''" files]
    by (simp add: sampleWorld_def j resolve_b filename_b)
qed

lemma sample_collected: "collected sampleRecords = Inr {''/a.jpg'', ''http://x.com/b.png''}"
  by code_simp

lemma sample_columns:
  "columnOf (headerLoop 0 (hd sampleRecords) Map.empty) ''body_uk'' = 0"
  "columnOf (headerLoop 0 (hd sampleRecords) Map.empty) ''body_ru'' = 1"
  by code_simp+

lemma sample_header:
  "2 \<le> length sampleRecords" "''body_uk'' \<in> set (hd sampleRecords)"
  "''body_ru'' \<in> set (hd sampleRecords)"
  by (simp_all add: sampleRecords_def)

lemma sample_file_ne:
  "''files/u/'' @ hashOf u @ ''--a.jpg'' \<noteq> ''files/u/'' @ hashOf v @ ''--b.png''"
  "''files/u/'' @ hashOf v @ ''--b.png'' \<noteq> ''files/u/'' @ hashOf u @ ''--a.jpg''"
  using hash_suffix_ne[of "''--a.jpg''" "''--b.png''" u v]
    hash_suffix_ne[of "''--b.png''" "''--a.jpg''" v u] by simp_all

lemma sample_loop_ba:
  "downloadLoop sampleLib sampleWorld ''https://site.ua'' ''/u/'' 2
     [''http://x.com/b.png'', ''/a.jpg'']
     \<lparr>pathMap = Map.empty, completed = 0, existing = {}, trace = []\<rparr>
   = \<lparr>pathMap = [''http://x.com/b.png'' \<mapsto> ''/u/'' @ hashOf ''http://x.com/b.png'' @ ''--b.png'',
                 ''/a.jpg'' \<mapsto> ''/u/'' @ hashOf ''https://site.ua/a.jpg'' @ ''--a.jpg''],
      completed = 2,
      existing = {''files/u/'' @ hashOf ''https://site.ua/a.jpg'' @ ''--a.jpg'',
                  ''files/u/'' @ hashOf ''http://x.com/b.png'' @ ''--b.png''},
      trace = [MkdirAll ''files/u'', HttpGet ''http://x.com/b.png'',
               FileCreate (''files/u/'' @ hashOf ''http://x.com/b.png'' @ ''--b.png''),
               ProgressSet (Quot 1 2),
               updateStatus (downloadedStatus 1 2 ''http://x.com/b.png''),
               MkdirAll ''files/u'', HttpGet ''https://site.ua/a.jpg'',
               FileCreate (''files/u/'' @ hashOf ''https://site.ua/a.jpg'' @ ''--a.jpg''),
               ProgressSet (Quot 2 2),
               updateStatus (downloadedStatus 2 2 ''/a.jpg'')]\<rparr>"
  by (simp add: sample_download_a sample_download_b sample_file_ne numeral_2_eq_2)


lemma sample_rewrite:
  assumes "m ''/a.jpg'' = Some pa" and "m ''http://x.com/b.png'' = Some pb"
  shows "rewriteLoop 0 1 m 2 (tl sampleRecords) 2
     = ([[imgWithSrc pa, []], [imgWithSrc pb, []]],
        [ProgressSet (Quot 3 2), ProgressSet (Quot 4 2)])"
  using assms by (simp add: sampleRecords_def Let_def rewrite_a rewrite_b rewrite_empty)


lemma sample_outcome:
  assumes "order {''/a.jpg'', ''http://x.com/b.png''} = links" and "length links = 2"
    and "downloadLoop sampleLib sampleWorld ''https://site.ua'' ''/u/'' 2 links
           \<lparr>pathMap = Map.empty, completed = 0, existing = {}, trace = []\<rparr> = st"
    and "pathMap st ''/a.jpg'' = Some pa" and "pathMap st ''http://x.com/b.png'' = Some pb"
    and "completed st = 2"
  shows "processRecords sampleLib sampleWorld {} order sampleRecords ''https://site.ua'' ''/u/''
           outputFileName selectedSeparator
     = \<lparr>returned = None,
        recordsAfter = [[''body_uk'', ''body_ru''], [imgWithSrc pa, []], [imgWithSrc pb, []]],
        finalMap = pathMap st,
        effects = [ProgressSet Zero, updateStatus ''Downloading images...''] @ trace st
          @ [ProgressSet (Quot 3 2), ProgressSet (Quot 4 2),
             updateStatus ''Writing to output file...'',
             OutputCreate outputFileName,
             OutputWrite outputFileName (separatorOf selectedSeparator)
               [[''body_uk'', ''body_ru''], [imgWithSrc pa, []], [imgWithSrc pb, []]]]\<rparr>"
proof -
  have w: "\<And>recs. writeCSV sampleWorld recs outputFileName selectedSeparator
      = (None, [OutputCreate outputFileName,
                OutputWrite outputFileName (separatorOf selectedSeparator) recs])"
    by (rule writeCSV_ok) (simp_all add: sampleWorld_def)
  have h: "hd sampleRecords = [''body_uk'', ''body_ru'']" by (simp add: sampleRecords_def)
  show ?thesis
    apply (subst processRecords_reached[OF sample_header sample_collected])
    apply (simp only: Let_def sample_columns)
    apply (simp only: assms(1) assms(2))
    apply (simp only: assms(3) assms(6))
    apply (simp only: sample_rewrite[OF assms(4,5)] w)
    apply (simp add: h)
    done
qed

lemma sample_outcome_ba:
  assumes "order {''/a.jpg'', ''http://x.com/b.png''} = [''http://x.com/b.png'', ''/a.jpg'']"
  shows "recordsAfter (processRecords sampleLib sampleWorld {} order sampleRecords
            ''https://site.ua'' ''/u/'' outputFileName selectedSeparator)
       = [[''body_uk'', ''body_ru''],
          [imgWithSrc (''/u/'' @ hashOf ''https://site.ua/a.jpg'' @ ''--a.jpg''), []],
          [imgWithSrc (''/u/'' @ hashOf ''http://x.com/b.png'' @ ''--b.png''), []]]"
    and "requests (effects (processRecords sampleLib sampleWorld {} order sampleRecords
            ''https://site.ua'' ''/u/'' outputFileName selectedSeparator))
       = [''http://x.com/b.png'', ''https://site.ua/a.jpg'']"
    and "progressValues (effects (processRecords sampleLib sampleWorld {} order sampleRecords
            ''https://site.ua'' ''/u/'' outputFileName selectedSeparator))
       = [Zero, Quot 1 2, Quot 2 2, Quot 3 2, Quot 4 2]"
    and "returned (processRecords sampleLib sampleWorld {} order sampleRecords
            ''https://site.ua'' ''/u/'' outputFileName selectedSeparator) = None"
  by (simp_all add: sample_outcome[of order, OF assms _ sample_loop_ba] requests_def progressValues_def
      updateStatus_def)


lemma sample_order: "sampleOrder {''/a.jpg'', ''http://x.com/b.png''} = [''http://x.com/b.png'', ''/a.jpg'']"
  by (simp add: sampleOrder_def)











text \<open>
  C8.  The denominator is the number of references only, and the rewriting loop goes on
  incrementing the numerator: in the example of the specification the values set after
  the two rows are 3/2 and 4/2.
\<close>

theorem progress_exceeds_one:
  "progressValues (effects sampleRun) = [Zero, Quot 1 2, Quot 2 2, Quot 3 2, Quot 4 2]
   \<and> \<not> inUnitInterval (Quot 3 2) \<and> \<not> inUnitInterval (Quot 4 2)"
  unfolding sampleRun_def by (simp add: sample_outcome_ba[of sampleOrder, OF sample_order])

end
